theory Spec2Isabelle
  imports Main
begin

section \<open>The session manager of the frontend (frontend/src/iam.ts)\<close>

text \<open>
  The module keeps two variables, \<open>state\<close> (a Vue ref holding the session or null) and
  \<open>refreshTimerId\<close>, and talks to four collaborators: the browser's local storage (one
  key, \<open>auth\<close>), the window's timeouts, the HTTP client and the router. All of them are
  fields of one record, passed through every function and returned updated.

  A \<open>Date\<close> is the number of milliseconds since the epoch, an \<open>int\<close>; the invalid date
  is not modelled, so every timestamp of a session is a point in time.
\<close>

subsection \<open>Data\<close>

text \<open>The interface \<open>State\<close>.\<close>

record State =
  accessToken :: string
  accessTokenExpiration :: int
  refreshToken :: string
  refreshTokenExpiration :: int
  email :: string
  firstName :: string
  lastName :: string

text \<open>
  The body of a \<open>LoginResponse\<close>. Its two expiration fields are strings in the source,
  read by \<open>new Date\<close>; here they are the dates those strings denote.
\<close>

record LoginResponse =
  access_token :: string
  access_token_expiration :: int
  refresh_token :: string
  refresh_token_expiration :: int
  res_email :: string
  first_name :: string
  last_name :: string

text \<open>
  What the string stored under the key \<open>auth\<close> is to \<open>JSON.parse\<close>: a text it rejects
  with a \<open>SyntaxError\<close>, the JSON value \<open>null\<close>, or an object with the seven fields of
  a session (the type the source casts the parsed value to), its two expirations being
  the dates \<open>new Date\<close> reads from the stored strings. JSON values of any other shape
  are not modelled.
\<close>

datatype stored = Unparseable | Json_null | Json_State State

datatype error = SyntaxError | HttpError

text \<open>
  The result of one HTTP request: the promise is rejected, or resolved with a body. The
  body of the answer to \<open>/auth/logout\<close> is never read.
\<close>

datatype http_result = Rejected | Resolved LoginResponse

datatype request = Post_login string string | Post_refresh | Post_logout

datatype route = Login | Home

text \<open>
  \<^item> \<open>state_value\<close> is \<open>state.value\<close>, \<open>refreshTimerId\<close> the variable of that name;
  \<^item> \<open>localStorage\<close> is the entry under the key \<open>auth\<close>, \<open>None\<close> when there is none;
  \<^item> \<open>timeouts\<close> lists the pending timeouts whose callback calls \<open>refresh\<close>, each with
    its id and the delay it was armed with; \<open>next_timeout\<close> is the id the next
    \<open>window.setTimeout\<close> returns;
  \<^item> \<open>clock\<close> gives the time read by the n-th \<open>new Date()\<close>, \<open>ticks\<close> counts the reads;
  \<^item> \<open>http_tape\<close> scripts the results of the HTTP requests still to come, in order; when
    it is empty the next request never settles, and the operation awaiting it never
    returns (the value \<open>None\<close> of the operations below);
  \<^item> \<open>http_calls\<close> and \<open>router_pushes\<close> record the requests sent and the calls of
    \<open>router.push\<close>; \<open>guards\<close> counts the calls of \<open>router.beforeEach\<close>;
  \<^item> \<open>in_flight\<close> counts the refresh requests that a call of the scheduler nobody
    awaits has sent and that have no response yet.
\<close>

record world =
  state_value :: "State option"
  refreshTimerId :: "nat option"
  localStorage :: "stored option"
  timeouts :: "(nat \<times> int) list"
  next_timeout :: nat
  clock :: "nat \<Rightarrow> int"
  ticks :: nat
  http_tape :: "http_result list"
  http_calls :: "request list"
  router_pushes :: "route list"
  guards :: nat
  in_flight :: nat

subsection \<open>The collaborators\<close>

definition new_Date :: "world \<Rightarrow> int \<times> world" where
  "new_Date w = (clock w (ticks w), w\<lparr>ticks := Suc (ticks w)\<rparr>)"

text \<open>The two functions of date-fns the module uses.\<close>

definition subMinutes :: "int \<Rightarrow> int \<Rightarrow> int" where
  "subMinutes d n = d - n * 60000"

definition differenceInMilliseconds :: "int \<Rightarrow> int \<Rightarrow> int" where
  "differenceInMilliseconds l r = l - r"

definition clearTimeout :: "nat \<Rightarrow> world \<Rightarrow> world" where
  "clearTimeout i w = w\<lparr>timeouts := filter (\<lambda>t. fst t \<noteq> i) (timeouts w)\<rparr>"

definition setTimeout :: "int \<Rightarrow> world \<Rightarrow> nat \<times> world" where
  "setTimeout ms w =
     (next_timeout w,
      w\<lparr>timeouts := timeouts w @ [(next_timeout w, ms)],
        next_timeout := Suc (next_timeout w)\<rparr>)"

definition router_push :: "route \<Rightarrow> world \<Rightarrow> world" where
  "router_push r w = w\<lparr>router_pushes := router_pushes w @ [r]\<rparr>"

text \<open>
  One request: it is recorded, and its result is the head of the script. \<open>None\<close> when
  the script is empty.
\<close>

definition http_post :: "request \<Rightarrow> world \<Rightarrow> (http_result \<times> world) option" where
  "http_post q w =
     (case http_tape w of
        [] \<Rightarrow> None
      | r # rs \<Rightarrow> Some (r, w\<lparr>http_tape := rs, http_calls := http_calls w @ [q]\<rparr>))"

subsection \<open>Storage\<close>

definition readStateFromStorage :: "world \<Rightarrow> (error + State option) \<times> world" where
  "readStateFromStorage w =
     (case localStorage w of
        None \<Rightarrow> (Inr None, w)
      | Some Unparseable \<Rightarrow> (Inl SyntaxError, w)
      | Some Json_null \<Rightarrow> (Inr None, w)
      | Some (Json_State parsed) \<Rightarrow>
          (case new_Date w of
             (now, w') \<Rightarrow>
               if refreshTokenExpiration parsed \<le> now then (Inr None, w')
               else (Inr (Some parsed), w')))"

definition writeStateToStorage :: "State \<Rightarrow> world \<Rightarrow> world" where
  "writeStateToStorage s w = w\<lparr>localStorage := Some (Json_State s)\<rparr>"

definition removeStateFromStorage :: "world \<Rightarrow> world" where
  "removeStateFromStorage w = w\<lparr>localStorage := None\<rparr>"

subsection \<open>Scheduling, login, refresh, logout\<close>

definition state_of_response :: "LoginResponse \<Rightarrow> State" where
  "state_of_response res =
     \<lparr>accessToken = access_token res,
      accessTokenExpiration = access_token_expiration res,
      refreshToken = refresh_token res,
      refreshTokenExpiration = refresh_token_expiration res,
      email = res_email res,
      firstName = first_name res,
      lastName = last_name res\<rparr>"

text \<open>
  \<open>scheduleAutoRefresh\<close> and \<open>refresh\<close> call each other. \<open>scheduleAutoRefresh\<close> catches
  what \<open>refresh\<close> throws, so it returns a world only; \<open>refresh\<close> returns what it threw,
  if anything, and the world. Each round of the recursion sends one request, so the
  recursion ends with the script.
\<close>

function scheduleAutoRefresh :: "world \<Rightarrow> world option"
  and refresh :: "world \<Rightarrow> (error option \<times> world) option" where
  "scheduleAutoRefresh w =
     (let w1 = (case refreshTimerId w of None \<Rightarrow> w | Some i \<Rightarrow> clearTimeout i w) in
      case state_value w1 of
        None \<Rightarrow> Some w1
      | Some s \<Rightarrow>
          (case new_Date w1 of
             (d1, w2) \<Rightarrow>
               if refreshTokenExpiration s \<le> d1
               then Some (removeStateFromStorage (w2\<lparr>state_value := None\<rparr>))
               else
                 (case new_Date w2 of
                    (d2, w3) \<Rightarrow>
                      if accessTokenExpiration s \<le> d2
                      then
                        (case refresh w3 of
                           None \<Rightarrow> None
                         | Some (None, w4) \<Rightarrow> Some w4
                         | Some (Some e, w4) \<Rightarrow>
                             Some (removeStateFromStorage (w4\<lparr>state_value := None\<rparr>)))
                      else
                        (case new_Date w3 of
                           (d3, w4) \<Rightarrow>
                             (case setTimeout
                                     (differenceInMilliseconds
                                        (subMinutes (accessTokenExpiration s) 1) d3) w4 of
                                (i, w5) \<Rightarrow> Some (w5\<lparr>refreshTimerId := Some i\<rparr>))))))"
| "refresh w =
     (case state_value w of
        None \<Rightarrow> Some (None, w)
      | Some s \<Rightarrow>
          (case http_post Post_refresh w of
             None \<Rightarrow> None
           | Some (Rejected, w1) \<Rightarrow> Some (Some HttpError, w1)
           | Some (Resolved res, w1) \<Rightarrow>
               (case scheduleAutoRefresh
                       (writeStateToStorage (state_of_response res)
                          (w1\<lparr>state_value := Some (state_of_response res)\<rparr>)) of
                  None \<Rightarrow> None
                | Some w2 \<Rightarrow> Some (None, w2))))"
  by pat_completeness auto

termination
  by (relation "measure (\<lambda>x. case x of
                    Inl w \<Rightarrow> 2 * length (http_tape w) + 1
                  | Inr w \<Rightarrow> 2 * length (http_tape w))")
     (auto simp: new_Date_def clearTimeout_def http_post_def writeStateToStorage_def
           split: option.splits list.splits)

declare scheduleAutoRefresh.simps [simp del] refresh.simps [simp del]

text \<open>
  The two functions above are the calls as their caller sees them when it awaits them:
  \<open>login\<close> and \<open>refresh\<close> await the scheduler, and the scheduler awaits \<open>refresh\<close>.
  \<open>AuthPlugin.install\<close> calls the scheduler and does not await it. JavaScript runs the
  body of an async function up to the first promise it has to wait for and then returns
  to the caller, so \<open>scheduleAutoRefresh_call\<close> is the scheduler as far as it runs
  before it returns: to its end (\<open>Settled\<close>) on every path but one, and on the path
  that calls \<open>refresh\<close> up to the request that \<open>refresh\<close> sends (\<open>Pending\<close>; on that
  path \<open>refresh\<close> finds the session the scheduler has just tested). The rest of that
  path runs when the response arrives, \<open>response_arrives\<close>: rejected, the \<open>catch\<close> of
  the scheduler logs out; resolved, \<open>refresh\<close> stores the new session and calls the
  scheduler, which again runs as far as it can. Lemma \<open>scheduleAutoRefresh_awaited\<close>
  shows that the awaited scheduler is the call followed by that rest.
\<close>

datatype progress = Settled world | Pending world

fun world_of :: "progress \<Rightarrow> world" where
  "world_of (Settled w) = w"
| "world_of (Pending w) = w"

definition scheduleAutoRefresh_call :: "world \<Rightarrow> progress" where
  "scheduleAutoRefresh_call w =
     (let w1 = (case refreshTimerId w of None \<Rightarrow> w | Some i \<Rightarrow> clearTimeout i w) in
      case state_value w1 of
        None \<Rightarrow> Settled w1
      | Some s \<Rightarrow>
          (case new_Date w1 of
             (d1, w2) \<Rightarrow>
               if refreshTokenExpiration s \<le> d1
               then Settled (removeStateFromStorage (w2\<lparr>state_value := None\<rparr>))
               else
                 (case new_Date w2 of
                    (d2, w3) \<Rightarrow>
                      if accessTokenExpiration s \<le> d2
                      then
                        Pending (w3\<lparr>http_calls := http_calls w3 @ [Post_refresh],
                                   in_flight := Suc (in_flight w3)\<rparr>)
                      else
                        (case new_Date w3 of
                           (d3, w4) \<Rightarrow>
                             (case setTimeout
                                     (differenceInMilliseconds
                                        (subMinutes (accessTokenExpiration s) 1) d3) w4 of
                                (i, w5) \<Rightarrow> Settled (w5\<lparr>refreshTimerId := Some i\<rparr>))))))"

definition response_arrives :: "world \<Rightarrow> world" where
  "response_arrives w =
     (if in_flight w = 0 then w
      else
        (case http_tape w of
           [] \<Rightarrow> w
         | r # rs \<Rightarrow>
             (let w1 = w\<lparr>http_tape := rs, in_flight := in_flight w - 1\<rparr> in
              case r of
                Rejected \<Rightarrow> removeStateFromStorage (w1\<lparr>state_value := None\<rparr>)
              | Resolved res \<Rightarrow>
                  world_of
                    (scheduleAutoRefresh_call
                       (writeStateToStorage (state_of_response res)
                          (w1\<lparr>state_value := Some (state_of_response res)\<rparr>))))))"

definition login :: "string \<Rightarrow> string \<Rightarrow> world \<Rightarrow> (error option \<times> world) option" where
  "login mail password w =
     (case http_post (Post_login mail password) w of
        None \<Rightarrow> None
      | Some (Rejected, w1) \<Rightarrow> Some (Some HttpError, w1)
      | Some (Resolved res, w1) \<Rightarrow>
          (case scheduleAutoRefresh
                  (writeStateToStorage (state_of_response res)
                     (w1\<lparr>state_value := Some (state_of_response res)\<rparr>)) of
             None \<Rightarrow> None
           | Some w2 \<Rightarrow> Some (None, w2)))"

definition clearTokens :: "world \<Rightarrow> world" where
  "clearTokens w =
     (let w1 = (case refreshTimerId w of None \<Rightarrow> w | Some i \<Rightarrow> clearTimeout i w) in
      router_push Login (removeStateFromStorage (w1\<lparr>state_value := None\<rparr>)))"

text \<open>
  The request of \<open>logout\<close> sits in a \<open>try\<close> whose \<open>catch\<close> only logs: both results go
  on to \<open>clearTokens\<close>.
\<close>

definition logout :: "world \<Rightarrow> (error option \<times> world) option" where
  "logout w =
     (case state_value w of
        None \<Rightarrow> Some (None, w)
      | Some s \<Rightarrow>
          (case http_post Post_logout w of
             None \<Rightarrow> None
           | Some (Rejected, w1) \<Rightarrow> Some (None, clearTokens w1)
           | Some (Resolved res, w1) \<Rightarrow> Some (None, clearTokens w1)))"

subsection \<open>The plugin: rehydration and the navigation guard\<close>

definition router_beforeEach :: "world \<Rightarrow> world" where
  "router_beforeEach w = w\<lparr>guards := Suc (guards w)\<rparr>"

text \<open>
  \<open>AuthPlugin.install\<close>. An exception of \<open>readStateFromStorage\<close> leaves the function
  before the guard is registered. The scheduler is called and not awaited: \<open>install\<close>
  goes on with the world the call returned in, registers the guard and returns, also
  when a refresh request is still in flight. It always returns; its type is the one of
  the other operations.
\<close>

definition install :: "world \<Rightarrow> (error option \<times> world) option" where
  "install w =
     (case readStateFromStorage w of
        (Inl e, w1) \<Rightarrow> Some (Some e, w1)
      | (Inr None, w1) \<Rightarrow> Some (None, router_beforeEach (removeStateFromStorage w1))
      | (Inr (Some storedState), w1) \<Rightarrow>
          Some (None,
                router_beforeEach
                  (world_of (scheduleAutoRefresh_call (w1\<lparr>state_value := Some storedState\<rparr>)))))"

text \<open>
  The metadata of the target route: \<open>to.meta\<close> may be missing, and so may each flag.
  \<open>nullish a b\<close> is \<open>a ?? b\<close>, and \<open>Option.bind meta f\<close> is \<open>meta?.f\<close>.
\<close>

record RouteMeta =
  requiresAuth :: "bool option"
  redirectIfLoggedIn :: "bool option"

datatype navigation = Redirect route | Proceed

definition nullish :: "'a option \<Rightarrow> 'a \<Rightarrow> 'a" where
  "nullish a b = (case a of None \<Rightarrow> b | Some v \<Rightarrow> v)"

definition beforeEach :: "RouteMeta option \<Rightarrow> world \<Rightarrow> navigation" where
  "beforeEach meta w =
     (if nullish (Option.bind meta requiresAuth) True \<and> state_value w = None
      then Redirect Login
      else if \<not> nullish (Option.bind meta requiresAuth) True
              \<and> nullish (Option.bind meta redirectIfLoggedIn) True
              \<and> state_value w \<noteq> None
      then Redirect Home
      else Proceed)"

subsection \<open>Timers firing, and sequences of operations\<close>

text \<open>
  The callback of a timeout is \<open>refresh().catch(console.error)\<close>: what \<open>refresh\<close> throws
  is logged and dropped. A timeout that fires is no longer pending when its callback
  runs; an id that is not pending fires nothing.
\<close>

definition timer_fires :: "nat \<Rightarrow> world \<Rightarrow> world option" where
  "timer_fires i w =
     (case map_of (timeouts w) i of
        None \<Rightarrow> Some w
      | Some ms \<Rightarrow>
          (case refresh (w\<lparr>timeouts := filter (\<lambda>t. fst t \<noteq> i) (timeouts w)\<rparr>) of
             None \<Rightarrow> None
           | Some (r, w') \<Rightarrow> Some w'))"

datatype operation =
  Op_login string string | Op_refresh | Op_logout | Op_install | Op_timer nat | Op_response

fun step :: "operation \<Rightarrow> world \<Rightarrow> world option" where
  "step (Op_login mail password) w = map_option snd (login mail password w)"
| "step Op_refresh w = map_option snd (refresh w)"
| "step Op_logout w = map_option snd (logout w)"
| "step Op_install w = map_option snd (install w)"
| "step (Op_timer i) w = timer_fires i w"
| "step Op_response w = Some (response_arrives w)"

fun run :: "operation list \<Rightarrow> world \<Rightarrow> world option" where
  "run [] w = Some w"
| "run (a # as) w = (case step a w of None \<Rightarrow> None | Some w' \<Rightarrow> run as w')"

text \<open>The world when the module is loaded: the initial values of its two variables.\<close>

definition boot :: "stored option \<Rightarrow> (nat \<Rightarrow> int) \<Rightarrow> http_result list \<Rightarrow> world" where
  "boot st clk tape =
     \<lparr>state_value = None, refreshTimerId = None, localStorage = st, timeouts = [],
      next_timeout = 1, clock = clk, ticks = 0, http_tape = tape, http_calls = [],
      router_pushes = [], guards = 0, in_flight = 0\<rparr>"

subsection \<open>Invariants\<close>

text \<open>
  \<open>timers_ok\<close>: no timeout is pending, or one is, it is the one \<open>refreshTimerId\<close> names
  and its id has been handed out. \<open>in_sync\<close>: the storage holds the serialisation of the
  session in memory, and nothing when there is none.
\<close>

definition timers_ok :: "world \<Rightarrow> bool" where
  "timers_ok w =
     (case timeouts w of
        [] \<Rightarrow> True
      | [t] \<Rightarrow> refreshTimerId w = Some (fst t) \<and> fst t < next_timeout w
      | _ \<Rightarrow> False)"

definition in_sync :: "world \<Rightarrow> bool" where
  "in_sync w = (localStorage w = map_option Json_State (state_value w))"

subsection \<open>Worlds named in the statements\<close>

text \<open>
  The statements below name the worlds the functions pass through:
  \<^item> \<open>cancelled w\<close>: the timeout \<open>refreshTimerId\<close> names is cleared, the first step of
    \<open>scheduleAutoRefresh\<close> and of \<open>clearTokens\<close>;
  \<^item> \<open>requested q w\<close>: the request \<open>q\<close> has been sent and its result taken off the
    script (the statements use it where the script is not empty);
  \<^item> \<open>signed_in res w\<close>: the session of the response \<open>res\<close> is in memory and in the
    storage; \<open>signed_out w\<close>: neither holds a session;
  \<^item> \<open>rehydrated p w\<close>: \<open>readStateFromStorage\<close> has read the clock and \<open>install\<close> has put
    the stored session \<open>p\<close> in memory;
  \<^item> \<open>stale_refresh_world w\<close>: where the scheduler calls \<open>refresh\<close>, the timeout cleared
    and the clock read twice;
  \<^item> \<open>armed ms w\<close>: where the scheduler ends having armed a timeout of \<open>ms\<close>
    milliseconds, the clock read three times.
  \<open>alive q w\<close> says that the session \<open>q\<close> passes a rehydration begun in \<open>w\<close> untouched:
  its refresh token has not expired when \<open>readStateFromStorage\<close> and then the scheduler
  read the clock, nor its access token when the scheduler reads it again.
  \<open>meta_flag meta f\<close> is the flag \<open>f\<close> of the route's metadata, true when the metadata
  or the flag is missing.
\<close>

definition cancelled :: "world \<Rightarrow> world" where
  "cancelled w = (case refreshTimerId w of None \<Rightarrow> w | Some i \<Rightarrow> clearTimeout i w)"

definition requested :: "request \<Rightarrow> world \<Rightarrow> world" where
  "requested q w = w\<lparr>http_tape := tl (http_tape w), http_calls := http_calls w @ [q]\<rparr>"

definition signed_in :: "LoginResponse \<Rightarrow> world \<Rightarrow> world" where
  "signed_in res w =
     w\<lparr>state_value := Some (state_of_response res),
       localStorage := Some (Json_State (state_of_response res))\<rparr>"

definition signed_out :: "world \<Rightarrow> world" where
  "signed_out w = w\<lparr>state_value := None, localStorage := None\<rparr>"

definition rehydrated :: "State \<Rightarrow> world \<Rightarrow> world" where
  "rehydrated p w = w\<lparr>ticks := Suc (ticks w), state_value := Some p\<rparr>"

definition stale_refresh_world :: "world \<Rightarrow> world" where
  "stale_refresh_world w = (cancelled w)\<lparr>ticks := Suc (Suc (ticks w))\<rparr>"

definition armed :: "int \<Rightarrow> world \<Rightarrow> world" where
  "armed ms w =
     (cancelled w)
       \<lparr>ticks := Suc (Suc (Suc (ticks w))),
        timeouts := timeouts (cancelled w) @ [(next_timeout w, ms)],
        next_timeout := Suc (next_timeout w),
        refreshTimerId := Some (next_timeout w)\<rparr>"

definition alive :: "State \<Rightarrow> world \<Rightarrow> bool" where
  "alive q w =
     (clock w (ticks w) < refreshTokenExpiration q
      \<and> clock w (Suc (ticks w)) < refreshTokenExpiration q
      \<and> clock w (Suc (Suc (ticks w))) < accessTokenExpiration q)"

definition meta_flag :: "RouteMeta option \<Rightarrow> (RouteMeta \<Rightarrow> bool option) \<Rightarrow> bool" where
  "meta_flag meta f =
     (case meta of None \<Rightarrow> True | Some m \<Rightarrow> (case f m of None \<Rightarrow> True | Some b \<Rightarrow> b))"

subsection \<open>Concrete sessions and worlds\<close>

text \<open>
  Times are in milliseconds. The session \<open>session_a\<close> has an access token that expires
  at five minutes and a refresh token that expires at one hour; \<open>response_a\<close> is the
  response that carries it, \<open>response_b\<close> a later one. \<open>logged_in_world\<close> is the world
  after \<open>install\<close> on an empty storage and a login answered by \<open>response_a\<close>, the clock
  reading 0 throughout (lemma \<open>logged_in_world_reached\<close>). In \<open>stale_world\<close> the clock
  reads a time after the access token has expired, in \<open>expired_world\<close> a time after both
  have.
\<close>

definition session_a :: State where
  "session_a =
     \<lparr>accessToken = ''access-1'', accessTokenExpiration = 300000,
      refreshToken = ''refresh-1'', refreshTokenExpiration = 3600000,
      email = ''ada@example.org'', firstName = ''Ada'', lastName = ''Lovelace''\<rparr>"

definition response_a :: LoginResponse where
  "response_a =
     \<lparr>access_token = ''access-1'', access_token_expiration = 300000,
      refresh_token = ''refresh-1'', refresh_token_expiration = 3600000,
      res_email = ''ada@example.org'', first_name = ''Ada'', last_name = ''Lovelace''\<rparr>"

definition response_b :: LoginResponse where
  "response_b =
     \<lparr>access_token = ''access-2'', access_token_expiration = 700000,
      refresh_token = ''refresh-2'', refresh_token_expiration = 4000000,
      res_email = ''ada@example.org'', first_name = ''Ada'', last_name = ''Lovelace''\<rparr>"

definition logged_in_world :: "http_result list \<Rightarrow> world" where
  "logged_in_world tape =
     \<lparr>state_value = Some session_a, refreshTimerId = Some 1,
      localStorage = Some (Json_State session_a), timeouts = [(1, 240000)],
      next_timeout = 2, clock = (\<lambda>n. 0), ticks = 3, http_tape = tape,
      http_calls = [Post_login ''ada@example.org'' ''secret''], router_pushes = [],
      guards = 1, in_flight = 0\<rparr>"

definition stale_world :: "http_result list \<Rightarrow> world" where
  "stale_world tape = (logged_in_world tape)\<lparr>clock := (\<lambda>n. 400000)\<rparr>"

definition expired_world :: "http_result list \<Rightarrow> world" where
  "expired_world tape = (logged_in_world tape)\<lparr>clock := (\<lambda>n. 4000000)\<rparr>"

subsection \<open>Worlds with a request in flight\<close>

text \<open>
  \<open>sent w\<close> is the world in which the scheduler, called without waiting, has sent the
  refresh request and handed control back: the request is recorded and counted as in
  flight, nothing else has changed. \<open>awaiting_world\<close> is the world \<open>install\<close> returns
  when the storage holds \<open>session_a\<close> and the clock reads 400000, after its access token
  has expired and before its refresh token has (lemma \<open>awaiting_world_reached\<close>): the
  session is in memory, the request is in flight and no timeout is pending.
  \<open>response_c\<close> is a third response, later than \<open>response_b\<close>.
\<close>

definition sent :: "world \<Rightarrow> world" where
  "sent w = w\<lparr>http_calls := http_calls w @ [Post_refresh], in_flight := Suc (in_flight w)\<rparr>"

definition awaiting_world :: "http_result list \<Rightarrow> world" where
  "awaiting_world tape =
     \<lparr>state_value = Some session_a, refreshTimerId = None,
      localStorage = Some (Json_State session_a), timeouts = [],
      next_timeout = 1, clock = (\<lambda>n. 400000), ticks = 3, http_tape = tape,
      http_calls = [Post_refresh], router_pushes = [], guards = 1, in_flight = 1\<rparr>"


section \<open>Lemmas\<close>

subsection \<open>The scheduler, branch by branch\<close>

lemma timers_ok_iff:
  "timers_ok w = (timeouts w = [] \<or>
     (\<exists>i ms. timeouts w = [(i, ms)] \<and> refreshTimerId w = Some i \<and> i < next_timeout w))"
  by (auto simp: timers_ok_def split: list.splits)

lemma cancelled_fields [simp]:
  "state_value (cancelled w) = state_value w"
  "refreshTimerId (cancelled w) = refreshTimerId w"
  "localStorage (cancelled w) = localStorage w"
  "next_timeout (cancelled w) = next_timeout w"
  "clock (cancelled w) = clock w"
  "ticks (cancelled w) = ticks w"
  "http_tape (cancelled w) = http_tape w"
  "http_calls (cancelled w) = http_calls w"
  "router_pushes (cancelled w) = router_pushes w"
  "guards (cancelled w) = guards w"
  by (simp_all add: cancelled_def clearTimeout_def split: option.splits)

lemma cancelled_timeouts:
  "timeouts (cancelled w) = filter (\<lambda>t. Some (fst t) \<noteq> refreshTimerId w) (timeouts w)"
  by (auto simp: cancelled_def clearTimeout_def split: option.splits intro: filter_cong)

lemma cancelled_timers_ok: "timers_ok w \<Longrightarrow> timeouts (cancelled w) = []"
  by (auto simp: timers_ok_iff cancelled_timeouts)

lemma schedule_logged_out:
  "state_value w = None \<Longrightarrow> scheduleAutoRefresh w = Some (cancelled w)"
  by (simp add: scheduleAutoRefresh.simps cancelled_def [symmetric])

lemma schedule_refresh_token_expired:
  "state_value w = Some s \<Longrightarrow> refreshTokenExpiration s \<le> clock w (ticks w) \<Longrightarrow>
   scheduleAutoRefresh w =
     Some ((cancelled w)\<lparr>ticks := Suc (ticks w), state_value := None, localStorage := None\<rparr>)"
  by (simp add: scheduleAutoRefresh.simps cancelled_def [symmetric] new_Date_def
       removeStateFromStorage_def)

lemma schedule_access_token_expired:
  "state_value w = Some s \<Longrightarrow> clock w (ticks w) < refreshTokenExpiration s \<Longrightarrow>
   accessTokenExpiration s \<le> clock w (Suc (ticks w)) \<Longrightarrow>
   scheduleAutoRefresh w =
     (case refresh ((cancelled w)\<lparr>ticks := Suc (Suc (ticks w))\<rparr>) of
        None \<Rightarrow> None
      | Some (None, w4) \<Rightarrow> Some w4
      | Some (Some e, w4) \<Rightarrow> Some (w4\<lparr>state_value := None, localStorage := None\<rparr>))"
  by (simp add: scheduleAutoRefresh.simps cancelled_def [symmetric] new_Date_def
       removeStateFromStorage_def split: option.splits)

lemma schedule_arms_timer:
  "state_value w = Some s \<Longrightarrow> clock w (ticks w) < refreshTokenExpiration s \<Longrightarrow>
   clock w (Suc (ticks w)) < accessTokenExpiration s \<Longrightarrow>
   scheduleAutoRefresh w =
     Some ((cancelled w)
       \<lparr>ticks := Suc (Suc (Suc (ticks w))),
        timeouts := timeouts (cancelled w) @
          [(next_timeout w, accessTokenExpiration s - 60000 - clock w (Suc (Suc (ticks w))))],
        next_timeout := Suc (next_timeout w),
        refreshTimerId := Some (next_timeout w)\<rparr>)"
  by (simp add: scheduleAutoRefresh.simps cancelled_def [symmetric] new_Date_def
       setTimeout_def subMinutes_def differenceInMilliseconds_def Let_def)

lemma refresh_rejected:
  "state_value w = Some s \<Longrightarrow> http_tape w = Rejected # rs \<Longrightarrow>
   refresh w = Some (Some HttpError, w\<lparr>http_tape := rs, http_calls := http_calls w @ [Post_refresh]\<rparr>)"
  by (simp add: refresh.simps http_post_def)

lemma refresh_resolved:
  "state_value w = Some s \<Longrightarrow> http_tape w = Resolved res # rs \<Longrightarrow>
   refresh w =
     map_option (Pair None)
       (scheduleAutoRefresh
          (w\<lparr>http_tape := rs, http_calls := http_calls w @ [Post_refresh],
             state_value := Some (state_of_response res),
             localStorage := Some (Json_State (state_of_response res))\<rparr>))"
  by (simp add: refresh.simps http_post_def writeStateToStorage_def split: option.splits)

lemma refresh_never_settles:
  "state_value w = Some s \<Longrightarrow> http_tape w = [] \<Longrightarrow> refresh w = None"
  by (simp add: refresh.simps http_post_def)

lemma schedule_stale_cases:
  assumes s: "state_value w = Some s"
    and r: "clock w (ticks w) < refreshTokenExpiration s"
    and a: "accessTokenExpiration s \<le> clock w (Suc (ticks w))"
  shows "http_tape w = [] \<Longrightarrow> scheduleAutoRefresh w = None"
    and "http_tape w = Rejected # rs \<Longrightarrow>
         scheduleAutoRefresh w =
           Some (signed_out (requested Post_refresh (stale_refresh_world w)))"
    and "http_tape w = Resolved res # rs \<Longrightarrow>
         scheduleAutoRefresh w =
           scheduleAutoRefresh (signed_in res (requested Post_refresh (stale_refresh_world w)))"
proof -
  let ?w3 = "(cancelled w)\<lparr>ticks := Suc (Suc (ticks w))\<rparr>"
  have st: "state_value ?w3 = Some s" using s by simp
  note u = schedule_access_token_expired [OF s r a]
  show "http_tape w = [] \<Longrightarrow> scheduleAutoRefresh w = None"
    using u refresh_never_settles [OF st] by simp
  show "http_tape w = Rejected # rs \<Longrightarrow>
         scheduleAutoRefresh w =
           Some (signed_out (requested Post_refresh (stale_refresh_world w)))"
    using u refresh_rejected [OF st, of rs]
    by (simp add: signed_out_def requested_def stale_refresh_world_def)
  show "http_tape w = Resolved res # rs \<Longrightarrow>
         scheduleAutoRefresh w =
           scheduleAutoRefresh (signed_in res (requested Post_refresh (stale_refresh_world w)))"
    using u refresh_resolved [OF st, of res rs]
    by (simp add: signed_in_def requested_def stale_refresh_world_def split: option.splits)
qed

subsection \<open>An induction principle for the scheduler\<close>

text \<open>
  A property of a call of the scheduler and the world it returns holds whenever it
  holds of the four ways the scheduler ends at once (logged out, refresh token
  expired, timeout armed, refresh rejected) and is passed on from the call the resolved
  refresh makes to the call that made the refresh. The proof is by induction on the
  length of the script.
\<close>

lemma schedule_induct [consumes 1, case_names logged_out refresh_expired armed rejected resolved]:
  assumes run: "scheduleAutoRefresh w = Some w'"
    and lo: "\<And>w. state_value w = None \<Longrightarrow> P w (cancelled w)"
    and ex: "\<And>w s. state_value w = Some s \<Longrightarrow> refreshTokenExpiration s \<le> clock w (ticks w) \<Longrightarrow>
               P w ((cancelled w)\<lparr>ticks := Suc (ticks w), state_value := None, localStorage := None\<rparr>)"
    and ar: "\<And>w s. state_value w = Some s \<Longrightarrow> clock w (ticks w) < refreshTokenExpiration s \<Longrightarrow>
               clock w (Suc (ticks w)) < accessTokenExpiration s \<Longrightarrow>
               P w ((cancelled w)
                 \<lparr>ticks := Suc (Suc (Suc (ticks w))),
                  timeouts := timeouts (cancelled w) @
                    [(next_timeout w, accessTokenExpiration s - 60000 - clock w (Suc (Suc (ticks w))))],
                  next_timeout := Suc (next_timeout w),
                  refreshTimerId := Some (next_timeout w)\<rparr>)"
    and rj: "\<And>w s rs. state_value w = Some s \<Longrightarrow> clock w (ticks w) < refreshTokenExpiration s \<Longrightarrow>
               accessTokenExpiration s \<le> clock w (Suc (ticks w)) \<Longrightarrow>
               http_tape w = Rejected # rs \<Longrightarrow>
               P w (signed_out (requested Post_refresh (stale_refresh_world w)))"
    and rs: "\<And>w s res rs w'. state_value w = Some s \<Longrightarrow>
               clock w (ticks w) < refreshTokenExpiration s \<Longrightarrow>
               accessTokenExpiration s \<le> clock w (Suc (ticks w)) \<Longrightarrow>
               http_tape w = Resolved res # rs \<Longrightarrow>
               scheduleAutoRefresh (signed_in res (requested Post_refresh (stale_refresh_world w))) = Some w' \<Longrightarrow>
               P (signed_in res (requested Post_refresh (stale_refresh_world w))) w' \<Longrightarrow>
               P w w'"
  shows "P w w'"
  using run
proof (induction "length (http_tape w)" arbitrary: w rule: less_induct)
  case less
  show ?case
  proof (cases "state_value w")
    case None
    with less.prems lo [of w] show ?thesis by (simp add: schedule_logged_out)
  next
    case (Some s)
    show ?thesis
    proof (cases "refreshTokenExpiration s \<le> clock w (ticks w)")
      case True
      with Some less.prems ex [of w s] show ?thesis
        by (simp add: schedule_refresh_token_expired)
    next
      case r: False
      show ?thesis
      proof (cases "accessTokenExpiration s \<le> clock w (Suc (ticks w))")
        case False
        with Some r less.prems ar [of w s] show ?thesis
          by (simp add: schedule_arms_timer)
      next
        case a: True
        from r have r': "clock w (ticks w) < refreshTokenExpiration s" by simp
        note c = schedule_stale_cases [OF Some r' a]
        show ?thesis
        proof (cases "http_tape w")
          case Nil
          with c(1) less.prems show ?thesis by simp
        next
          case (Cons h t)
          show ?thesis
          proof (cases h)
            case Rejected
            with Cons c(2) [of t] less.prems rj [OF Some r' a, of t] show ?thesis by simp
          next
            case (Resolved res)
            let ?W = "signed_in res (requested Post_refresh (stale_refresh_world w))"
            have eq: "scheduleAutoRefresh ?W = Some w'"
              using Cons Resolved c(3) [of res t] less.prems by simp
            have len: "length (http_tape ?W) < length (http_tape w)"
              using Cons by (simp add: signed_in_def requested_def stale_refresh_world_def)
            from less.hyps [OF len eq] have "P ?W w'" .
            with rs [OF Some r' a _ eq] Cons Resolved show ?thesis by simp
          qed
        qed
      qed
    qed
  qed
qed

subsection \<open>What the scheduler keeps and what it leaves\<close>

lemmas world_steps =
  signed_in_def signed_out_def requested_def stale_refresh_world_def

lemma timers_ok_empty: "timeouts w = [] \<Longrightarrow> timers_ok w"
  by (simp add: timers_ok_def)

lemma timers_ok_single:
  "timeouts w = [(i, ms)] \<Longrightarrow> refreshTimerId w = Some i \<Longrightarrow> i < next_timeout w \<Longrightarrow> timers_ok w"
  by (simp add: timers_ok_def)

lemma timers_ok_length: "timers_ok w \<Longrightarrow> length (timeouts w) \<le> 1"
  by (auto simp: timers_ok_iff)

lemma timers_ok_resolved:
  "timers_ok w \<Longrightarrow> timers_ok (signed_in res (requested q (stale_refresh_world w)))"
  by (rule timers_ok_empty) (simp add: world_steps cancelled_timers_ok)

lemma schedule_timers_ok:
  "scheduleAutoRefresh w = Some w' \<Longrightarrow> timers_ok w \<Longrightarrow> timers_ok w'"
proof (induction rule: schedule_induct)
  case (logged_out w)
  then show ?case by (intro timers_ok_empty) (simp add: cancelled_timers_ok)
next
  case (refresh_expired w s)
  then show ?case by (intro timers_ok_empty) (simp add: cancelled_timers_ok)
next
  case (armed w s)
  then show ?case
    by (intro timers_ok_single [where i = "next_timeout w"]) (simp_all add: cancelled_timers_ok)
next
  case (rejected w s rs)
  then show ?case by (intro timers_ok_empty) (simp add: world_steps cancelled_timers_ok)
next
  case (resolved w s res rs w')
  then show ?case by (intro resolved.IH timers_ok_resolved)
qed

lemma schedule_clock:
  "scheduleAutoRefresh w = Some w' \<Longrightarrow> clock w' = clock w"
  by (induction rule: schedule_induct) (simp_all add: world_steps)

lemma schedule_one_timer:
  "scheduleAutoRefresh w = Some w' \<Longrightarrow> timers_ok w \<Longrightarrow> state_value w' \<noteq> None \<Longrightarrow>
   length (timeouts w') = 1"
proof (induction rule: schedule_induct)
  case (resolved w s res rs w')
  then show ?case by (intro resolved.IH timers_ok_resolved)
qed (simp_all add: world_steps cancelled_timers_ok)

lemma schedule_fresh_timers:
  "scheduleAutoRefresh w = Some w' \<Longrightarrow> timers_ok w \<Longrightarrow>
   list_all (\<lambda>t. next_timeout w \<le> fst t) (timeouts w')"
proof (induction rule: schedule_induct)
  case (resolved w s res rs w')
  from resolved.IH [OF timers_ok_resolved [OF resolved.prems]]
  show ?case by (simp add: world_steps)
qed (simp_all add: world_steps cancelled_timers_ok)

lemma schedule_in_sync:
  "scheduleAutoRefresh w = Some w' \<Longrightarrow> in_sync w \<Longrightarrow> in_sync w'"
proof (induction rule: schedule_induct)
  case (resolved w s res rs w')
  have "in_sync (signed_in res (requested Post_refresh (stale_refresh_world w)))"
    by (simp add: in_sync_def world_steps)
  then show ?case by (rule resolved.IH)
qed (simp_all add: in_sync_def world_steps)

lemma schedule_forced_logout:
  "scheduleAutoRefresh w = Some w' \<Longrightarrow> state_value w \<noteq> None \<Longrightarrow> state_value w' = None \<Longrightarrow>
   localStorage w' = None"
proof (induction rule: schedule_induct)
  case (resolved w s res rs w')
  then show ?case by (simp add: world_steps)
qed (simp_all add: world_steps)

subsection \<open>How refresh, login and install can return\<close>

lemma refresh_cases [consumes 1, case_names logged_out rejected resolved]:
  assumes "refresh w = Some (e, w')"
  obtains "state_value w = None" and "e = None" and "w' = w"
  | s rs where "state_value w = Some s" and "http_tape w = Rejected # rs"
      and "e = Some HttpError" and "w' = requested Post_refresh w"
  | s res rs where "state_value w = Some s" and "http_tape w = Resolved res # rs"
      and "e = None"
      and "scheduleAutoRefresh (signed_in res (requested Post_refresh w)) = Some w'"
proof (cases "state_value w")
  case None
  with assms have "e = None" and "w' = w" by (simp_all add: refresh.simps)
  with None show ?thesis by (intro that(1))
next
  case (Some s)
  show ?thesis
  proof (cases "http_tape w")
    case Nil
    with Some assms show ?thesis by (simp add: refresh_never_settles)
  next
    case (Cons h t)
    show ?thesis
    proof (cases h)
      case Rejected
      with Cons have tape: "http_tape w = Rejected # t" by simp
      with assms have "e = Some HttpError" and "w' = requested Post_refresh w"
        by (simp_all add: refresh_rejected [OF Some tape] requested_def)
      with Some tape show ?thesis by (intro that(2))
    next
      case (Resolved res)
      let ?W = "signed_in res (requested Post_refresh w)"
      have tape: "http_tape w = Resolved res # t" using Cons Resolved by simp
      have "map_option (Pair None) (scheduleAutoRefresh ?W) = Some (e, w')"
        using assms refresh_resolved [OF Some tape] tape by (simp add: world_steps)
      then have "e = None" and "scheduleAutoRefresh ?W = Some w'" by auto
      with Some tape show ?thesis by (intro that(3))
    qed
  qed
qed

lemma login_rejected:
  "http_tape w = Rejected # rs \<Longrightarrow>
   login mail password w = Some (Some HttpError, requested (Post_login mail password) w)"
  by (simp add: login_def http_post_def requested_def)

lemma login_resolved:
  "http_tape w = Resolved res # rs \<Longrightarrow>
   login mail password w =
     map_option (Pair None)
       (scheduleAutoRefresh (signed_in res (requested (Post_login mail password) w)))"
  by (simp add: login_def http_post_def world_steps writeStateToStorage_def split: option.splits)

lemma login_never_settles: "http_tape w = [] \<Longrightarrow> login mail password w = None"
  by (simp add: login_def http_post_def)

lemma login_cases [consumes 1, case_names rejected resolved]:
  assumes "login mail password w = Some (e, w')"
  obtains rs where "http_tape w = Rejected # rs"
      and "e = Some HttpError" and "w' = requested (Post_login mail password) w"
  | res rs where "http_tape w = Resolved res # rs" and "e = None"
      and "scheduleAutoRefresh (signed_in res (requested (Post_login mail password) w)) = Some w'"
proof (cases "http_tape w")
  case Nil
  with assms show ?thesis by (simp add: login_never_settles)
next
  case (Cons h t)
  show ?thesis
  proof (cases h)
    case Rejected
    with Cons have tape: "http_tape w = Rejected # t" by simp
    with assms have "e = Some HttpError" and "w' = requested (Post_login mail password) w"
      by (simp_all add: login_rejected [OF tape])
    with tape show ?thesis by (intro that(1))
  next
    case (Resolved res)
    let ?W = "signed_in res (requested (Post_login mail password) w)"
    have tape: "http_tape w = Resolved res # t" using Cons Resolved by simp
    have "map_option (Pair None) (scheduleAutoRefresh ?W) = Some (e, w')"
      using assms login_resolved [OF tape, of mail password] tape by simp
    then have "e = None" and "scheduleAutoRefresh ?W = Some w'" by auto
    with tape show ?thesis by (intro that(2))
  qed
qed

lemma read_unparseable:
  "localStorage w = Some Unparseable \<Longrightarrow> readStateFromStorage w = (Inl SyntaxError, w)"
  by (simp add: readStateFromStorage_def)

lemma read_absent:
  "localStorage w = None \<or> localStorage w = Some Json_null \<Longrightarrow>
   readStateFromStorage w = (Inr None, w)"
  by (auto simp add: readStateFromStorage_def)

lemma read_expired:
  "localStorage w = Some (Json_State p) \<Longrightarrow> refreshTokenExpiration p \<le> clock w (ticks w) \<Longrightarrow>
   readStateFromStorage w = (Inr None, w\<lparr>ticks := Suc (ticks w)\<rparr>)"
  by (simp add: readStateFromStorage_def new_Date_def)

lemma read_live:
  "localStorage w = Some (Json_State p) \<Longrightarrow> clock w (ticks w) < refreshTokenExpiration p \<Longrightarrow>
   readStateFromStorage w = (Inr (Some p), w\<lparr>ticks := Suc (ticks w)\<rparr>)"
  by (simp add: readStateFromStorage_def new_Date_def)

subsection \<open>The concrete worlds, and smaller facts\<close>

lemma state_of_response_a: "state_of_response response_a = session_a"
  by (simp add: state_of_response_def response_a_def session_a_def)

lemma logged_in_world_reached:
  "run [Op_install, Op_login ''ada@example.org'' ''secret'']
     (boot None (\<lambda>n. 0) (Resolved response_a # tape)) = Some (logged_in_world tape)"
proof -
  let ?b = "boot None (\<lambda>n. 0) (Resolved response_a # tape)"
  let ?w1 = "?b\<lparr>localStorage := None, guards := Suc (guards ?b)\<rparr>"
  have i: "install ?b = Some (None, ?w1)"
    by (simp add: install_def read_absent boot_def router_beforeEach_def removeStateFromStorage_def)
  let ?w2 = "signed_in response_a (requested (Post_login ''ada@example.org'' ''secret'') ?w1)"
  have st: "state_value ?w2 = Some session_a"
    by (simp add: world_steps state_of_response_a)
  have l: "login ''ada@example.org'' ''secret'' ?w1 = map_option (Pair None) (scheduleAutoRefresh ?w2)"
    by (rule login_resolved [where rs = tape]) (simp add: boot_def)
  have s: "scheduleAutoRefresh ?w2 = Some (logged_in_world tape)"
    by (subst schedule_arms_timer [OF st])
       (simp_all add: world_steps boot_def session_a_def logged_in_world_def cancelled_def
          state_of_response_a [unfolded session_a_def])
  show ?thesis using i l s by simp
qed

lemma nullish_bind: "nullish (Option.bind meta f) True = meta_flag meta f"
  by (cases meta) (simp_all add: nullish_def meta_flag_def)

lemma requested_fields [simp]:
  "state_value (requested q w) = state_value w"
  "refreshTimerId (requested q w) = refreshTimerId w"
  "localStorage (requested q w) = localStorage w"
  "timeouts (requested q w) = timeouts w"
  "next_timeout (requested q w) = next_timeout w"
  "clock (requested q w) = clock w"
  "ticks (requested q w) = ticks w"
  "http_tape (requested q w) = tl (http_tape w)"
  "http_calls (requested q w) = http_calls w @ [q]"
  "router_pushes (requested q w) = router_pushes w"
  "guards (requested q w) = guards w"
  by (simp_all add: requested_def)

lemma clearTokens_eq:
  "clearTokens w =
     (cancelled w)\<lparr>state_value := None, localStorage := None,
                    router_pushes := router_pushes w @ [Login]\<rparr>"
  by (simp add: clearTokens_def cancelled_def [symmetric] router_push_def
        removeStateFromStorage_def Let_def)

lemma logout_logged_in:
  "state_value w = Some s \<Longrightarrow> http_tape w = r # rs \<Longrightarrow>
   logout w = Some (None, clearTokens (requested Post_logout w))"
  by (cases r) (simp_all add: logout_def http_post_def requested_def)

lemma timers_ok_requested [simp]: "timers_ok (requested q w) = timers_ok w"
  by (simp add: timers_ok_iff)

lemma timers_ok_stale [simp]:
  "timers_ok w \<Longrightarrow> timeouts (stale_refresh_world w) = []"
  by (simp add: stale_refresh_world_def cancelled_timers_ok)

lemma install_expired:
  "localStorage w = Some (Json_State p) \<Longrightarrow> refreshTokenExpiration p \<le> clock w (ticks w) \<Longrightarrow>
   install w =
     Some (None, w\<lparr>ticks := Suc (ticks w), localStorage := None, guards := Suc (guards w)\<rparr>)"
  by (simp add: install_def read_expired router_beforeEach_def removeStateFromStorage_def)

lemma schedule_armed:
  "state_value w = Some s \<Longrightarrow> clock w (ticks w) < refreshTokenExpiration s \<Longrightarrow>
   clock w (Suc (ticks w)) < accessTokenExpiration s \<Longrightarrow>
   scheduleAutoRefresh w =
     Some (armed (accessTokenExpiration s - 60000 - clock w (Suc (Suc (ticks w)))) w)"
  by (simp add: schedule_arms_timer armed_def)

lemma armed_timers_ok:
  "timers_ok w \<Longrightarrow> timeouts (armed ms w) = [(next_timeout w, ms)]"
  by (simp add: armed_def cancelled_timers_ok)

lemma rehydrated_fields [simp]:
  "state_value (rehydrated p w) = Some p"
  "refreshTimerId (rehydrated p w) = refreshTimerId w"
  "localStorage (rehydrated p w) = localStorage w"
  "timeouts (rehydrated p w) = timeouts w"
  "next_timeout (rehydrated p w) = next_timeout w"
  "clock (rehydrated p w) = clock w"
  "ticks (rehydrated p w) = Suc (ticks w)"
  "http_tape (rehydrated p w) = http_tape w"
  by (simp_all add: rehydrated_def)

lemma timers_ok_rehydrated [simp]: "timers_ok (rehydrated p w) = timers_ok w"
  by (simp add: timers_ok_iff)

lemma timers_ok_signed_in [simp]: "timers_ok (signed_in res w) = timers_ok w"
  by (simp add: timers_ok_iff signed_in_def)

subsection \<open>Every operation keeps the timers in order\<close>

lemma boot_timers_ok: "timers_ok (boot st clk tape)"
  by (simp add: timers_ok_def boot_def)

lemma refresh_timers_ok:
  assumes "refresh w = Some (e, w')" and "timers_ok w"
  shows "timers_ok w'"
  using assms
proof (cases rule: refresh_cases)
  case (resolved s res rs)
  from schedule_timers_ok [OF resolved(4)] assms(2) show ?thesis by simp
qed simp_all

lemma login_timers_ok:
  assumes "login mail password w = Some (e, w')" and "timers_ok w"
  shows "timers_ok w'"
  using assms
proof (cases rule: login_cases)
  case (resolved res rs)
  from schedule_timers_ok [OF resolved(3)] assms(2) show ?thesis by simp
qed simp_all

lemma logout_timers_ok:
  assumes "logout w = Some (e, w')" and "timers_ok w"
  shows "timers_ok w'"
proof (cases "state_value w")
  case None
  with assms show ?thesis by (simp add: logout_def)
next
  case (Some s)
  show ?thesis
  proof (cases "http_tape w")
    case Nil
    with Some assms show ?thesis by (simp add: logout_def http_post_def)
  next
    case (Cons r rs)
    have "timeouts (cancelled (requested Post_logout w)) = []"
      using assms(2) by (intro cancelled_timers_ok) simp
    with assms(1) logout_logged_in [OF Some Cons] show ?thesis
      by (intro timers_ok_empty) (auto simp add: clearTokens_eq)
  qed
qed

lemma timer_fires_timers_ok:
  assumes "timer_fires i w = Some w'" and "timers_ok w"
  shows "timers_ok w'"
proof (cases "map_of (timeouts w) i")
  case None
  with assms show ?thesis by (simp add: timer_fires_def)
next
  case (Some ms)
  let ?v = "w\<lparr>timeouts := filter (\<lambda>t. fst t \<noteq> i) (timeouts w)\<rparr>"
  have ok: "timers_ok ?v" using assms(2) by (auto simp add: timers_ok_iff split: if_splits)
  from assms(1) Some obtain r where "refresh ?v = Some (r, w')"
    by (auto simp add: timer_fires_def split: option.splits)
  then show ?thesis using ok by (rule refresh_timers_ok)
qed

subsection \<open>More on the concrete worlds, on storage and on rehydration\<close>

lemma login_at_boot:
  "login ''ada@example.org'' ''secret'' (boot None (\<lambda>n. 0) (Resolved response_a # tape)) =
     Some (None, (logged_in_world tape)\<lparr>guards := 0\<rparr>)"
proof -
  let ?b = "boot None (\<lambda>n. 0) (Resolved response_a # tape)"
  let ?w2 = "signed_in response_a (requested (Post_login ''ada@example.org'' ''secret'') ?b)"
  have st: "state_value ?w2 = Some session_a"
    by (simp add: world_steps state_of_response_a)
  have l: "login ''ada@example.org'' ''secret'' ?b = map_option (Pair None) (scheduleAutoRefresh ?w2)"
    by (rule login_resolved [where rs = tape]) (simp add: boot_def)
  have s: "scheduleAutoRefresh ?w2 = Some ((logged_in_world tape)\<lparr>guards := 0\<rparr>)"
    by (subst schedule_arms_timer [OF st])
       (simp_all add: world_steps boot_def session_a_def logged_in_world_def cancelled_def
          state_of_response_a [unfolded session_a_def])
  show ?thesis using l s by simp
qed

lemma schedule_logged_in_world:
  "scheduleAutoRefresh (logged_in_world tape) = Some (armed 240000 (logged_in_world tape))"
proof -
  have st: "state_value (logged_in_world tape) = Some session_a"
    by (simp add: logged_in_world_def)
  show ?thesis
    by (subst schedule_armed [OF st]) (simp_all add: logged_in_world_def session_a_def)
qed

lemma in_sync_signed_in [simp]: "in_sync (signed_in res w)"
  by (simp add: in_sync_def signed_in_def)

lemma in_sync_requested [simp]: "in_sync (requested q w) = in_sync w"
  by (simp add: in_sync_def)

lemma in_sync_clearTokens [simp]: "in_sync (clearTokens w)"
  by (simp add: in_sync_def clearTokens_eq)

lemma install_absent:
  "localStorage w = None \<or> localStorage w = Some Json_null \<Longrightarrow>
   install w = Some (None, w\<lparr>localStorage := None, guards := Suc (guards w)\<rparr>)"
  by (auto simp add: install_def read_absent router_beforeEach_def removeStateFromStorage_def)

lemma timers_ok_length_Suc: "timers_ok w \<Longrightarrow> length (timeouts w) \<le> Suc 0"
  using timers_ok_length [of w] by simp

lemma armed_fields [simp]:
  "state_value (armed ms w) = state_value w"
  "localStorage (armed ms w) = localStorage w"
  "clock (armed ms w) = clock w"
  by (simp_all add: armed_def)

lemma schedule_expired_world:
  "scheduleAutoRefresh (expired_world tape) =
     Some (signed_out ((cancelled (expired_world tape))\<lparr>ticks := 4\<rparr>))"
proof -
  have st: "state_value (expired_world tape) = Some session_a"
    by (simp add: expired_world_def logged_in_world_def)
  show ?thesis
    by (subst schedule_refresh_token_expired [OF st])
       (simp_all add: expired_world_def logged_in_world_def session_a_def signed_out_def)
qed

subsection \<open>Operations that keep storage and state in agreement\<close>

lemma refresh_in_sync:
  assumes "refresh w = Some (e, w')" and "in_sync w"
  shows "in_sync w'"
  using assms(1)
proof (cases rule: refresh_cases)
  case logged_out
  with assms(2) show ?thesis by simp
next
  case (rejected s rs)
  from assms(2) have "in_sync (requested Post_refresh w)" by simp
  with rejected(4) show ?thesis by simp
next
  case (resolved s res rs)
  from schedule_in_sync [OF resolved(4)] show ?thesis by simp
qed

lemma login_in_sync:
  assumes "login mail password w = Some (e, w')" and "in_sync w"
  shows "in_sync w'"
  using assms(1)
proof (cases rule: login_cases)
  case (rejected rs)
  from assms(2) have "in_sync (requested (Post_login mail password) w)" by simp
  with rejected(3) show ?thesis by simp
next
  case (resolved res rs)
  from schedule_in_sync [OF resolved(3)] show ?thesis by simp
qed

lemma logout_in_sync:
  assumes "logout w = Some (e, w')" and "in_sync w"
  shows "in_sync w'"
proof (cases "state_value w")
  case None
  with assms(1) have "w' = w" by (simp add: logout_def)
  with assms(2) show ?thesis by simp
next
  case (Some s)
  show ?thesis
  proof (cases "http_tape w")
    case Nil
    with Some assms(1) show ?thesis by (simp add: logout_def http_post_def)
  next
    case (Cons r rs)
    from logout_logged_in [OF Some Cons] assms(1)
    have "w' = clearTokens (requested Post_logout w)" by simp
    then show ?thesis by simp
  qed
qed

lemma timer_fires_in_sync:
  assumes "timer_fires i w = Some w'" and "in_sync w"
  shows "in_sync w'"
proof (cases "map_of (timeouts w) i")
  case None
  with assms(1) have "w' = w" by (simp add: timer_fires_def)
  with assms(2) show ?thesis by simp
next
  case (Some ms)
  let ?v = "w\<lparr>timeouts := filter (\<lambda>t. fst t \<noteq> i) (timeouts w)\<rparr>"
  have sync: "in_sync ?v" using assms(2) by (simp add: in_sync_def)
  from assms(1) Some obtain r where "refresh ?v = Some (r, w')"
    by (auto simp add: timer_fires_def split: option.splits)
  then show ?thesis using sync by (rule refresh_in_sync)
qed

subsection \<open>The scheduler called without waiting, and the response\<close>

lemma cancelled_in_flight [simp]: "in_flight (cancelled w) = in_flight w"
  by (simp add: cancelled_def clearTimeout_def split: option.splits)

lemma call_logged_out:
  "state_value w = None \<Longrightarrow> scheduleAutoRefresh_call w = Settled (cancelled w)"
  by (simp add: scheduleAutoRefresh_call_def cancelled_def [symmetric])

lemma call_refresh_token_expired:
  "state_value w = Some s \<Longrightarrow> refreshTokenExpiration s \<le> clock w (ticks w) \<Longrightarrow>
   scheduleAutoRefresh_call w =
     Settled ((cancelled w)\<lparr>ticks := Suc (ticks w), state_value := None, localStorage := None\<rparr>)"
  by (simp add: scheduleAutoRefresh_call_def cancelled_def [symmetric] new_Date_def
       removeStateFromStorage_def)

lemma call_stale:
  "state_value w = Some s \<Longrightarrow> clock w (ticks w) < refreshTokenExpiration s \<Longrightarrow>
   accessTokenExpiration s \<le> clock w (Suc (ticks w)) \<Longrightarrow>
   scheduleAutoRefresh_call w = Pending (sent (stale_refresh_world w))"
  by (simp add: scheduleAutoRefresh_call_def cancelled_def [symmetric] new_Date_def
       sent_def stale_refresh_world_def)

lemma call_armed:
  "state_value w = Some s \<Longrightarrow> clock w (ticks w) < refreshTokenExpiration s \<Longrightarrow>
   clock w (Suc (ticks w)) < accessTokenExpiration s \<Longrightarrow>
   scheduleAutoRefresh_call w =
     Settled (armed (accessTokenExpiration s - 60000 - clock w (Suc (Suc (ticks w)))) w)"
  by (simp add: scheduleAutoRefresh_call_def cancelled_def [symmetric] new_Date_def
       setTimeout_def subMinutes_def differenceInMilliseconds_def Let_def armed_def)

lemma call_cases [case_names logged_out refresh_expired stale armed]:
  obtains "state_value w = None" and "scheduleAutoRefresh_call w = Settled (cancelled w)"
  | s where "state_value w = Some s" and "refreshTokenExpiration s \<le> clock w (ticks w)"
      and "scheduleAutoRefresh_call w =
             Settled ((cancelled w)\<lparr>ticks := Suc (ticks w), state_value := None,
                                   localStorage := None\<rparr>)"
  | s where "state_value w = Some s" and "clock w (ticks w) < refreshTokenExpiration s"
      and "accessTokenExpiration s \<le> clock w (Suc (ticks w))"
      and "scheduleAutoRefresh_call w = Pending (sent (stale_refresh_world w))"
  | s where "state_value w = Some s" and "clock w (ticks w) < refreshTokenExpiration s"
      and "clock w (Suc (ticks w)) < accessTokenExpiration s"
      and "scheduleAutoRefresh_call w =
             Settled (armed (accessTokenExpiration s - 60000 - clock w (Suc (Suc (ticks w)))) w)"
proof (cases "state_value w")
  case None
  then show ?thesis using call_logged_out [OF None] by (rule that(1))
next
  case (Some s)
  show ?thesis
  proof (cases "refreshTokenExpiration s \<le> clock w (ticks w)")
    case True
    from Some True call_refresh_token_expired [OF Some True] show ?thesis by (rule that(2))
  next
    case False
    then have r: "clock w (ticks w) < refreshTokenExpiration s" by simp
    show ?thesis
    proof (cases "accessTokenExpiration s \<le> clock w (Suc (ticks w))")
      case True
      from Some r True call_stale [OF Some r True] show ?thesis by (rule that(3))
    next
      case False
      then have a: "clock w (Suc (ticks w)) < accessTokenExpiration s" by simp
      from Some r a call_armed [OF Some r a] show ?thesis by (rule that(4))
    qed
  qed
qed

text \<open>The awaited scheduler is the call, followed by what the response sets off.\<close>

lemma scheduleAutoRefresh_awaited:
  "scheduleAutoRefresh w =
     (case scheduleAutoRefresh_call w of
        Settled w1 \<Rightarrow> Some w1
      | Pending w1 \<Rightarrow>
          (case http_tape w1 of
             [] \<Rightarrow> None
           | Rejected # rs \<Rightarrow>
               Some (signed_out (w1\<lparr>http_tape := rs, in_flight := in_flight w1 - 1\<rparr>))
           | Resolved res # rs \<Rightarrow>
               scheduleAutoRefresh
                 (signed_in res (w1\<lparr>http_tape := rs, in_flight := in_flight w1 - 1\<rparr>))))"
proof (cases w rule: call_cases)
  case logged_out
  then show ?thesis by (simp add: schedule_logged_out)
next
  case (refresh_expired s)
  then show ?thesis by (simp add: schedule_refresh_token_expired)
next
  case (armed s)
  then show ?thesis by (simp add: schedule_armed)
next
  case (stale s)
  note c = schedule_stale_cases [OF stale(1,2,3)]
  let ?v = "stale_refresh_world w"
  show ?thesis
  proof (cases "http_tape w")
    case Nil
    with c(1) stale(4) show ?thesis by (simp add: sent_def stale_refresh_world_def)
  next
    case (Cons h t)
    have eq: "(sent ?v)\<lparr>http_tape := t, in_flight := in_flight (sent ?v) - 1\<rparr>
                  = requested Post_refresh ?v"
      using Cons by (intro world.equality) (simp_all add: sent_def world_steps)
    have tape: "http_tape (sent ?v) = h # t"
      using Cons by (simp add: sent_def world_steps)
    show ?thesis
    proof (cases h)
      case Rejected
      with Cons c(2) [of t] stale(4) tape eq show ?thesis by simp
    next
      case (Resolved res)
      with Cons c(3) [of res t] stale(4) tape eq show ?thesis by simp
    qed
  qed
qed

lemma sent_fields [simp]:
  "state_value (sent w) = state_value w"
  "refreshTimerId (sent w) = refreshTimerId w"
  "localStorage (sent w) = localStorage w"
  "timeouts (sent w) = timeouts w"
  "next_timeout (sent w) = next_timeout w"
  "clock (sent w) = clock w"
  "ticks (sent w) = ticks w"
  "http_tape (sent w) = http_tape w"
  "http_calls (sent w) = http_calls w @ [Post_refresh]"
  "router_pushes (sent w) = router_pushes w"
  "guards (sent w) = guards w"
  "in_flight (sent w) = Suc (in_flight w)"
  by (simp_all add: sent_def)

lemma call_timers_ok:
  assumes "timers_ok w"
  shows "timers_ok (world_of (scheduleAutoRefresh_call w))"
proof (cases w rule: call_cases)
  case logged_out
  with assms show ?thesis by (intro timers_ok_empty) (simp add: cancelled_timers_ok)
next
  case (refresh_expired s)
  with assms show ?thesis by (intro timers_ok_empty) (simp add: cancelled_timers_ok)
next
  case (stale s)
  with assms show ?thesis
    by (intro timers_ok_empty) (simp add: stale_refresh_world_def cancelled_timers_ok)
next
  case (armed s)
  with assms show ?thesis
    by (intro timers_ok_single [where i = "next_timeout w"])
       (simp_all add: armed_def cancelled_timers_ok)
qed

lemma call_fresh_timers:
  assumes "timers_ok w"
  shows "list_all (\<lambda>t. next_timeout w \<le> fst t) (timeouts (world_of (scheduleAutoRefresh_call w)))"
proof (cases w rule: call_cases)
  case logged_out
  with assms show ?thesis by (simp add: cancelled_timers_ok)
next
  case (refresh_expired s)
  with assms show ?thesis by (simp add: cancelled_timers_ok)
next
  case (stale s)
  with assms show ?thesis by (simp add: stale_refresh_world_def cancelled_timers_ok)
next
  case (armed s)
  with assms show ?thesis by (simp add: armed_def cancelled_timers_ok)
qed

lemma call_in_sync:
  assumes "in_sync w"
  shows "in_sync (world_of (scheduleAutoRefresh_call w))"
proof (cases w rule: call_cases)
  case logged_out
  with assms show ?thesis by (simp add: in_sync_def)
next
  case (refresh_expired s)
  with assms show ?thesis by (simp add: in_sync_def)
next
  case (stale s)
  with assms show ?thesis by (simp add: in_sync_def stale_refresh_world_def)
next
  case (armed s)
  with assms show ?thesis by (simp add: in_sync_def armed_def)
qed

text \<open>What the arrival of a response does, case by case.\<close>

lemma response_none:
  "in_flight w = 0 \<or> http_tape w = [] \<Longrightarrow> response_arrives w = w"
  by (auto simp add: response_arrives_def)

lemma response_rejected:
  "0 < in_flight w \<Longrightarrow> http_tape w = Rejected # rs \<Longrightarrow>
   response_arrives w = signed_out (w\<lparr>http_tape := rs, in_flight := in_flight w - 1\<rparr>)"
  by (simp add: response_arrives_def signed_out_def removeStateFromStorage_def)

lemma response_resolved:
  "0 < in_flight w \<Longrightarrow> http_tape w = Resolved res # rs \<Longrightarrow>
   response_arrives w =
     world_of (scheduleAutoRefresh_call
                 (signed_in res (w\<lparr>http_tape := rs, in_flight := in_flight w - 1\<rparr>)))"
  by (simp add: response_arrives_def signed_in_def writeStateToStorage_def)

lemma response_cases [case_names none rejected resolved]:
  obtains "in_flight w = 0 \<or> http_tape w = []" and "response_arrives w = w"
  | rs where "0 < in_flight w" and "http_tape w = Rejected # rs"
      and "response_arrives w = signed_out (w\<lparr>http_tape := rs, in_flight := in_flight w - 1\<rparr>)"
  | res rs where "0 < in_flight w" and "http_tape w = Resolved res # rs"
      and "response_arrives w =
             world_of (scheduleAutoRefresh_call
                         (signed_in res (w\<lparr>http_tape := rs, in_flight := in_flight w - 1\<rparr>)))"
proof (cases "in_flight w = 0 \<or> http_tape w = []")
  case True
  then show ?thesis using response_none [OF True] by (rule that(1))
next
  case False
  then have pos: "0 < in_flight w" by simp
  from False obtain h t where tape: "http_tape w = h # t" by (cases "http_tape w") auto
  show ?thesis
  proof (cases h)
    case Rejected
    with tape have t: "http_tape w = Rejected # t" by simp
    from pos t response_rejected [OF pos t] show ?thesis by (rule that(2))
  next
    case (Resolved res)
    with tape have t: "http_tape w = Resolved res # t" by simp
    from pos t response_resolved [OF pos t] show ?thesis by (rule that(3))
  qed
qed

lemma response_timers_ok:
  assumes "timers_ok w"
  shows "timers_ok (response_arrives w)"
proof (cases w rule: response_cases)
  case none
  with assms show ?thesis by simp
next
  case (rejected rs)
  have "timers_ok (signed_out (w\<lparr>http_tape := rs, in_flight := in_flight w - 1\<rparr>))"
    using assms by (simp add: timers_ok_iff signed_out_def)
  with rejected(3) show ?thesis by simp
next
  case (resolved res rs)
  have "timers_ok (w\<lparr>http_tape := rs, in_flight := in_flight w - 1\<rparr>)"
    using assms by (simp add: timers_ok_iff)
  then have "timers_ok (signed_in res (w\<lparr>http_tape := rs, in_flight := in_flight w - 1\<rparr>))"
    by simp
  from call_timers_ok [OF this] resolved(3) show ?thesis by simp
qed

lemma response_in_sync:
  assumes "in_sync w"
  shows "in_sync (response_arrives w)"
proof (cases w rule: response_cases)
  case none
  with assms show ?thesis by simp
next
  case (rejected rs)
  then show ?thesis by (simp add: in_sync_def signed_out_def)
next
  case (resolved res rs)
  have "in_sync (signed_in res (w\<lparr>http_tape := rs, in_flight := in_flight w - 1\<rparr>))" by simp
  from call_in_sync [OF this] resolved(3) show ?thesis by simp
qed

text \<open>How install returns.\<close>

lemma install_live:
  "localStorage w = Some (Json_State p) \<Longrightarrow> clock w (ticks w) < refreshTokenExpiration p \<Longrightarrow>
   install w =
     Some (None, router_beforeEach (world_of (scheduleAutoRefresh_call (rehydrated p w))))"
  by (simp add: install_def read_live rehydrated_def)

lemma install_cases [consumes 1, case_names unparseable absent expired live]:
  assumes "install w = Some (e, w')"
  obtains "localStorage w = Some Unparseable" and "e = Some SyntaxError" and "w' = w"
  | "localStorage w = None \<or> localStorage w = Some Json_null" and "e = None"
      and "w' = w\<lparr>localStorage := None, guards := Suc (guards w)\<rparr>"
  | p where "localStorage w = Some (Json_State p)"
      and "refreshTokenExpiration p \<le> clock w (ticks w)" and "e = None"
      and "w' = w\<lparr>ticks := Suc (ticks w), localStorage := None, guards := Suc (guards w)\<rparr>"
  | p where "localStorage w = Some (Json_State p)"
      and "clock w (ticks w) < refreshTokenExpiration p" and "e = None"
      and "w' = router_beforeEach (world_of (scheduleAutoRefresh_call (rehydrated p w)))"
proof (cases "localStorage w")
  case None
  then have a: "localStorage w = None \<or> localStorage w = Some Json_null" by simp
  from assms install_absent [OF a]
  have "e = None" and "w' = w\<lparr>localStorage := None, guards := Suc (guards w)\<rparr>" by simp_all
  with a show ?thesis by (intro that(2))
next
  case (Some v)
  show ?thesis
  proof (cases v)
    case Unparseable
    with Some have st: "localStorage w = Some Unparseable" by simp
    with assms have "e = Some SyntaxError" and "w' = w"
      by (simp_all add: install_def read_unparseable)
    with st show ?thesis by (intro that(1))
  next
    case Json_null
    with Some have a: "localStorage w = None \<or> localStorage w = Some Json_null" by simp
    from assms install_absent [OF a]
    have "e = None" and "w' = w\<lparr>localStorage := None, guards := Suc (guards w)\<rparr>" by simp_all
    with a show ?thesis by (intro that(2))
  next
    case (Json_State p)
    with Some have st: "localStorage w = Some (Json_State p)" by simp
    show ?thesis
    proof (cases "refreshTokenExpiration p \<le> clock w (ticks w)")
      case True
      from assms install_expired [OF st True] have "e = None"
        and "w' = w\<lparr>ticks := Suc (ticks w), localStorage := None, guards := Suc (guards w)\<rparr>"
        by simp_all
      with st True show ?thesis by (intro that(3))
    next
      case False
      then have live: "clock w (ticks w) < refreshTokenExpiration p" by simp
      from assms install_live [OF st live] have "e = None"
        and "w' = router_beforeEach (world_of (scheduleAutoRefresh_call (rehydrated p w)))"
        by simp_all
      with st live show ?thesis by (intro that(4))
    qed
  qed
qed

lemma install_returns: "\<exists>e w'. install w = Some (e, w')"
  by (simp add: install_def split: prod.splits sum.splits option.splits)

lemma timers_ok_beforeEach [simp]: "timers_ok (router_beforeEach w) = timers_ok w"
  by (simp add: timers_ok_iff router_beforeEach_def)

lemma in_sync_beforeEach [simp]: "in_sync (router_beforeEach w) = in_sync w"
  by (simp add: in_sync_def router_beforeEach_def)

lemma install_timers_ok:
  assumes "install w = Some (e, w')" and "timers_ok w"
  shows "timers_ok w'"
  using assms(1)
proof (cases rule: install_cases)
  case unparseable
  with assms(2) show ?thesis by simp
next
  case absent
  with assms(2) show ?thesis by (simp add: timers_ok_iff)
next
  case (expired p)
  with assms(2) show ?thesis by (simp add: timers_ok_iff)
next
  case (live p)
  have "timers_ok (rehydrated p w)" using assms(2) by simp
  from call_timers_ok [OF this] live(4) show ?thesis by simp
qed

lemma step_timers_ok: "step a w = Some w' \<Longrightarrow> timers_ok w \<Longrightarrow> timers_ok w'"
  by (cases a)
     (auto dest: login_timers_ok refresh_timers_ok logout_timers_ok install_timers_ok
        timer_fires_timers_ok simp add: response_timers_ok)

lemma run_timers_ok: "run ops w = Some w' \<Longrightarrow> timers_ok w \<Longrightarrow> timers_ok w'"
proof (induction ops arbitrary: w)
  case Nil
  then show ?case by simp
next
  case (Cons a ops)
  then show ?case by (auto split: option.splits dest: step_timers_ok)
qed

lemma install_in_sync:
  assumes "install w = Some (None, w')" and "state_value w = None"
  shows "in_sync w'"
  using assms(1)
proof (cases rule: install_cases)
  case unparseable
  then show ?thesis by simp
next
  case absent
  with assms(2) show ?thesis by (simp add: in_sync_def)
next
  case (expired p)
  with assms(2) show ?thesis by (simp add: in_sync_def)
next
  case (live p)
  have "in_sync (rehydrated p w)" using live(1) by (simp add: in_sync_def)
  from call_in_sync [OF this] live(4) show ?thesis by simp
qed

lemma install_boot_in_sync:
  assumes "install (boot st clk tape) = Some (None, w)"
  shows "in_sync w"
  using assms by (rule install_in_sync) (simp add: boot_def)

lemma step_in_sync:
  "step a w = Some w' \<Longrightarrow> in_sync w \<Longrightarrow> a \<noteq> Op_install \<Longrightarrow> in_sync w'"
  by (cases a)
     (auto dest: login_in_sync refresh_in_sync logout_in_sync timer_fires_in_sync
        simp add: response_in_sync)

lemma run_in_sync:
  "run ops w = Some w' \<Longrightarrow> in_sync w \<Longrightarrow> Op_install \<notin> set ops \<Longrightarrow> in_sync w'"
proof (induction ops arbitrary: w)
  case Nil
  then show ?case by simp
next
  case (Cons a ops)
  from Cons.prems(1) obtain v where a: "step a w = Some v" and r: "run ops v = Some w'"
    by (auto split: option.splits)
  from Cons.prems(3) have na: "a \<noteq> Op_install" and no: "Op_install \<notin> set ops" by auto
  from step_in_sync [OF a Cons.prems(2) na] have "in_sync v" .
  from Cons.IH [OF r this no] show ?case .
qed

lemma timer_fires_armed:
  assumes "timers_ok w"
  shows "timer_fires (next_timeout w) (armed ms w) =
           map_option snd (refresh ((armed ms w)\<lparr>timeouts := []\<rparr>))"
proof -
  have t: "timeouts (armed ms w) = [(next_timeout w, ms)]"
    using assms by (rule armed_timers_ok)
  then have "timer_fires (next_timeout w) (armed ms w) =
      (case refresh ((armed ms w)\<lparr>timeouts := []\<rparr>) of
         None \<Rightarrow> None | Some (r, w') \<Rightarrow> Some w')"
    by (simp add: timer_fires_def)
  then show ?thesis by (simp split: option.splits)
qed

subsection \<open>Rehydration\<close>

lemma install_with_session:
  assumes "localStorage w = Some (Json_State p)"
    and h: "clock w (ticks w) < refreshTokenExpiration p
            \<and> clock w (Suc (ticks w)) < refreshTokenExpiration p"
  shows "\<exists>w'. install w = Some (None, w') \<and> state_value w' = Some p
          \<and> localStorage w' = Some (Json_State p) \<and> guards w' = Suc (guards w)
          \<and> (clock w (Suc (Suc (ticks w))) < accessTokenExpiration p \<longrightarrow>
               timeouts w' =
                 timeouts (cancelled w) @
                   [(next_timeout w,
                     accessTokenExpiration p - 60000 - clock w (Suc (Suc (Suc (ticks w)))))]
               \<and> http_calls w' = http_calls w \<and> in_flight w' = in_flight w)
          \<and> (accessTokenExpiration p \<le> clock w (Suc (Suc (ticks w))) \<longrightarrow>
               timeouts w' = timeouts (cancelled w)
               \<and> http_calls w' = http_calls w @ [Post_refresh]
               \<and> in_flight w' = Suc (in_flight w))"
proof -
  let ?W = "rehydrated p w"
  let ?o = "router_beforeEach (world_of (scheduleAutoRefresh_call ?W))"
  have i: "install w = Some (None, ?o)" using h install_live [OF assms(1)] by simp
  have st: "state_value ?W = Some p" by simp
  have r: "clock ?W (ticks ?W) < refreshTokenExpiration p" using h by simp
  have fresh: "scheduleAutoRefresh_call ?W =
          Settled (armed (accessTokenExpiration p - 60000 - clock ?W (Suc (Suc (ticks ?W)))) ?W)"
    if "clock w (Suc (Suc (ticks w))) < accessTokenExpiration p"
    using that by (intro call_armed [OF st r]) simp
  have stale: "scheduleAutoRefresh_call ?W = Pending (sent (stale_refresh_world ?W))"
    if "accessTokenExpiration p \<le> clock w (Suc (Suc (ticks w)))"
    using that by (intro call_stale [OF st r]) simp
  have "state_value ?o = Some p \<and> localStorage ?o = Some (Json_State p)
        \<and> guards ?o = Suc (guards w)"
  proof (cases "clock w (Suc (Suc (ticks w))) < accessTokenExpiration p")
    case True
    with fresh assms(1) show ?thesis
      by (simp add: router_beforeEach_def armed_def rehydrated_def)
  next
    case False
    with stale assms(1) show ?thesis
      by (simp add: router_beforeEach_def stale_refresh_world_def rehydrated_def)
  qed
  moreover have "clock w (Suc (Suc (ticks w))) < accessTokenExpiration p \<longrightarrow>
               timeouts ?o =
                 timeouts (cancelled w) @
                   [(next_timeout w,
                     accessTokenExpiration p - 60000 - clock w (Suc (Suc (Suc (ticks w)))))]
               \<and> http_calls ?o = http_calls w \<and> in_flight ?o = in_flight w"
    using fresh
    by (auto simp add: router_beforeEach_def armed_def rehydrated_def cancelled_timeouts)
  moreover have "accessTokenExpiration p \<le> clock w (Suc (Suc (ticks w))) \<longrightarrow>
               timeouts ?o = timeouts (cancelled w)
               \<and> http_calls ?o = http_calls w @ [Post_refresh]
               \<and> in_flight ?o = Suc (in_flight w)"
    using stale
    by (auto simp add: router_beforeEach_def stale_refresh_world_def rehydrated_def
          cancelled_timeouts)
  ultimately show ?thesis using i by blast
qed

lemma install_fresh:
  assumes "timers_ok w" and "localStorage w = Some (Json_State p)" and "alive p w"
  shows "\<exists>w'. install w = Some (None, w') \<and> state_value w' = Some p
           \<and> length (timeouts w') = 1 \<and> in_flight w' = in_flight w"
proof -
  have h: "clock w (ticks w) < refreshTokenExpiration p
            \<and> clock w (Suc (ticks w)) < refreshTokenExpiration p"
    and a: "clock w (Suc (Suc (ticks w))) < accessTokenExpiration p"
    using assms(3) by (simp_all add: alive_def)
  from install_with_session [OF assms(2) h] a cancelled_timers_ok [OF assms(1)]
  show ?thesis by auto
qed

lemma install_stale:
  assumes "timers_ok w" and "localStorage w = Some (Json_State p)"
    and h: "clock w (ticks w) < refreshTokenExpiration p
            \<and> clock w (Suc (ticks w)) < refreshTokenExpiration p"
    and a: "accessTokenExpiration p \<le> clock w (Suc (Suc (ticks w)))"
  shows "\<exists>w'. install w = Some (None, w') \<and> state_value w' = Some p
           \<and> timeouts w' = [] \<and> in_flight w' = Suc (in_flight w)
           \<and> http_calls w' = http_calls w @ [Post_refresh]"
  using install_with_session [OF assms(2) h] a cancelled_timers_ok [OF assms(1)]
  by auto

lemma response_brings_session:
  assumes "0 < in_flight w" and "http_tape w = Resolved res # rs"
    and "clock w (ticks w) < refresh_token_expiration res"
  shows "state_value (response_arrives w) = Some (state_of_response res)"
proof -
  let ?W = "signed_in res (w\<lparr>http_tape := rs, in_flight := in_flight w - 1\<rparr>)"
  have r: "response_arrives w = world_of (scheduleAutoRefresh_call ?W)"
    using assms(1,2) by (rule response_resolved)
  have st: "state_value ?W = Some (state_of_response res)" by (simp add: signed_in_def)
  have alive: "clock ?W (ticks ?W) < refreshTokenExpiration (state_of_response res)"
    using assms(3) by (simp add: signed_in_def state_of_response_def)
  show ?thesis
  proof (cases ?W rule: call_cases)
    case logged_out
    with st show ?thesis by simp
  next
    case (refresh_expired s)
    with st alive show ?thesis by simp
  next
    case (stale s)
    with r st show ?thesis by (simp add: stale_refresh_world_def)
  next
    case (armed s)
    with r st show ?thesis by simp
  qed
qed

lemma response_arms_timer:
  assumes "timers_ok w" and "0 < in_flight w" and "http_tape w = Resolved res # rs"
    and "clock w (ticks w) < refresh_token_expiration res"
    and "clock w (Suc (ticks w)) < access_token_expiration res"
  shows "length (timeouts (response_arrives w)) = 1"
proof -
  let ?W = "signed_in res (w\<lparr>http_tape := rs, in_flight := in_flight w - 1\<rparr>)"
  have r: "response_arrives w = world_of (scheduleAutoRefresh_call ?W)"
    using assms(2,3) by (rule response_resolved)
  have st: "state_value ?W = Some (state_of_response res)" by (simp add: signed_in_def)
  have "timers_ok (w\<lparr>http_tape := rs, in_flight := in_flight w - 1\<rparr>)"
    using assms(1) by (simp add: timers_ok_iff)
  then have ok: "timers_ok ?W" by simp
  have "scheduleAutoRefresh_call ?W =
      Settled (armed (accessTokenExpiration (state_of_response res) - 60000
                        - clock ?W (Suc (Suc (ticks ?W)))) ?W)"
    using assms(4,5)
    by (intro call_armed [OF st]) (simp_all add: signed_in_def state_of_response_def)
  with r armed_timers_ok [OF ok] show ?thesis by simp
qed

lemma armed_more_fields [simp]:
  "http_tape (armed ms w) = http_tape w"
  "http_calls (armed ms w) = http_calls w"
  "in_flight (armed ms w) = in_flight w"
  "ticks (armed ms w) = Suc (Suc (Suc (ticks w)))"
  "next_timeout (armed ms w) = Suc (next_timeout w)"
  "refreshTimerId (armed ms w) = Some (next_timeout w)"
  "guards (armed ms w) = guards w"
  by (simp_all add: armed_def)



lemma signed_in_fields [simp]:
  "state_value (signed_in res w) = Some (state_of_response res)"
  "localStorage (signed_in res w) = Some (Json_State (state_of_response res))"
  "refreshTimerId (signed_in res w) = refreshTimerId w"
  "timeouts (signed_in res w) = timeouts w"
  "next_timeout (signed_in res w) = next_timeout w"
  "clock (signed_in res w) = clock w"
  "ticks (signed_in res w) = ticks w"
  "http_tape (signed_in res w) = http_tape w"
  "http_calls (signed_in res w) = http_calls w"
  "in_flight (signed_in res w) = in_flight w"
  by (simp_all add: signed_in_def)

subsection \<open>Rehydrating again\<close>







section \<open>The claims\<close>

subsection \<open>C1\<close>

text \<open>
  Claim C1 says that every failed \<open>refresh\<close> logs the session out. Logged in with a
  timeout pending and the refresh endpoint rejecting the request: a direct call of
  \<open>refresh\<close> throws and leaves the session, the storage entry and the timeout as they
  were; the firing timeout drops the error and leaves the session and the storage
  entry as they were.
\<close>

theorem refresh_failure_keeps_session:
  "(\<exists>w'. refresh (logged_in_world [Rejected]) = Some (Some HttpError, w')
      \<and> state_value w' = Some session_a \<and> localStorage w' = Some (Json_State session_a)
      \<and> timeouts w' = [(1, 240000)])
   \<and> (\<exists>w'. timer_fires 1 (logged_in_world [Rejected]) = Some w'
      \<and> state_value w' = Some session_a \<and> localStorage w' = Some (Json_State session_a)
      \<and> timeouts w' = [])"
proof -
  have 1: "state_value (logged_in_world [Rejected]) = Some session_a"
    by (simp add: logged_in_world_def)
  have 2: "http_tape (logged_in_world [Rejected]) = Rejected # []"
    by (simp add: logged_in_world_def)
  let ?v = "(logged_in_world [Rejected])\<lparr>timeouts := []\<rparr>"
  have 3: "state_value ?v = Some session_a" by (simp add: logged_in_world_def)
  have 4: "http_tape ?v = Rejected # []" by (simp add: logged_in_world_def)
  have "timer_fires 1 (logged_in_world [Rejected]) =
          (case refresh ?v of None \<Rightarrow> None | Some (r, w') \<Rightarrow> Some w')"
    by (simp add: timer_fires_def logged_in_world_def)
  then show ?thesis
    using refresh_rejected [OF 1 2] refresh_rejected [OF 3 4]
    by (simp add: logged_in_world_def)
qed

text \<open>
  Claim C1, amended. With a session in memory and the endpoint rejecting the request, a
  direct call of \<open>refresh\<close> throws to its caller having sent that one request and
  changed nothing else; and when the scheduler finds the refresh token alive and the
  access token expired, so that it tries \<open>refresh\<close> at once, it ends logged out: the
  state is null, the storage entry is removed, no timeout is pending, and the one
  request is the only one sent (the rest of the script is untouched).
\<close>

theorem refresh_failure:
  assumes "state_value w = Some s" and "http_tape w = Rejected # rs"
  shows "refresh w = Some (Some HttpError, requested Post_refresh w)
    \<and> (clock w (ticks w) < refreshTokenExpiration s
         \<and> accessTokenExpiration s \<le> clock w (Suc (ticks w)) \<and> timers_ok w \<longrightarrow>
       (\<exists>w'. scheduleAutoRefresh w = Some w' \<and> state_value w' = None
          \<and> localStorage w' = None \<and> timeouts w' = []
          \<and> http_calls w' = http_calls w @ [Post_refresh] \<and> http_tape w' = rs))"
proof (intro conjI impI)
  show "refresh w = Some (Some HttpError, requested Post_refresh w)"
    using refresh_rejected [OF assms] assms(2) by (simp add: requested_def)
next
  assume h: "clock w (ticks w) < refreshTokenExpiration s
         \<and> accessTokenExpiration s \<le> clock w (Suc (ticks w)) \<and> timers_ok w"
  then have "scheduleAutoRefresh w =
      Some (signed_out (requested Post_refresh (stale_refresh_world w)))"
    using schedule_stale_cases(2) [OF assms(1) _ _ assms(2)] by simp
  moreover have "timeouts (stale_refresh_world w) = []" using h by simp
  ultimately show "\<exists>w'. scheduleAutoRefresh w = Some w' \<and> state_value w' = None
          \<and> localStorage w' = None \<and> timeouts w' = []
          \<and> http_calls w' = http_calls w @ [Post_refresh] \<and> http_tape w' = rs"
    using assms(2) by (simp add: signed_out_def requested_def) (simp add: stale_refresh_world_def)
qed

theorem refresh_failure_witness:
  "refresh (stale_world [Rejected]) =
     Some (Some HttpError, requested Post_refresh (stale_world [Rejected]))
   \<and> (\<exists>w'. scheduleAutoRefresh (stale_world [Rejected]) = Some w' \<and> state_value w' = None
          \<and> localStorage w' = None \<and> timeouts w' = []
          \<and> http_calls w' = http_calls (stale_world [Rejected]) @ [Post_refresh]
          \<and> http_tape w' = [])"
proof -
  have 1: "state_value (stale_world [Rejected]) = Some session_a"
    by (simp add: stale_world_def logged_in_world_def)
  have 2: "http_tape (stale_world [Rejected]) = Rejected # []"
    by (simp add: stale_world_def logged_in_world_def)
  have 3: "clock (stale_world [Rejected]) (ticks (stale_world [Rejected]))
             < refreshTokenExpiration session_a
         \<and> accessTokenExpiration session_a
             \<le> clock (stale_world [Rejected]) (Suc (ticks (stale_world [Rejected])))
         \<and> timers_ok (stale_world [Rejected])"
    by (simp add: stale_world_def logged_in_world_def session_a_def timers_ok_def)
  show ?thesis using refresh_failure [OF 1 2] 3 by simp
qed

subsection \<open>C2\<close>

text \<open>
  Claim C2 says that a stored value that is not a parseable session reads as null and
  never raises. At process start with a stored text that \<open>JSON.parse\<close> rejects,
  \<open>readStateFromStorage\<close> raises the \<open>SyntaxError\<close>, \<open>install\<close> raises it in turn, and
  the stored text stays where it was.
\<close>

theorem corrupt_storage_raises:
  "readStateFromStorage (boot (Some Unparseable) (\<lambda>n. 0) []) =
     (Inl SyntaxError, boot (Some Unparseable) (\<lambda>n. 0) [])
   \<and> install (boot (Some Unparseable) (\<lambda>n. 0) []) =
     Some (Some SyntaxError, boot (Some Unparseable) (\<lambda>n. 0) [])
   \<and> localStorage (boot (Some Unparseable) (\<lambda>n. 0) []) = Some Unparseable"
  by (simp add: install_def readStateFromStorage_def boot_def)

text \<open>
  Claim C2, amended. A stored text that \<open>JSON.parse\<close> rejects makes
  \<open>readStateFromStorage\<close> raise a \<open>SyntaxError\<close>, which leaves \<open>install\<close> before the guard
  is registered, with nothing changed: the state in memory is what it was (null at
  process start) and the stored text stays. A stored value that is absent or the JSON
  \<open>null\<close> reads as null, and \<open>install\<close> returns with the state as it was, the entry
  removed and the guard registered.
\<close>

theorem rehydrate_unusable_storage:
  "(localStorage w = Some Unparseable \<longrightarrow>
      readStateFromStorage w = (Inl SyntaxError, w) \<and> install w = Some (Some SyntaxError, w))
   \<and> (localStorage w = None \<or> localStorage w = Some Json_null \<longrightarrow>
      readStateFromStorage w = (Inr None, w)
      \<and> install w = Some (None, w\<lparr>localStorage := None, guards := Suc (guards w)\<rparr>))"
  by (auto simp add: install_def read_unparseable read_absent router_beforeEach_def
        removeStateFromStorage_def)

theorem rehydrate_unusable_storage_witness:
  "install (boot (Some Unparseable) (\<lambda>n. 0) []) =
     Some (Some SyntaxError, boot (Some Unparseable) (\<lambda>n. 0) [])
   \<and> install (boot (Some Json_null) (\<lambda>n. 0) []) =
     Some (None, (boot (Some Json_null) (\<lambda>n. 0) [])\<lparr>localStorage := None, guards := 1\<rparr>)
   \<and> state_value ((boot (Some Json_null) (\<lambda>n. 0) [])\<lparr>localStorage := None, guards := 1\<rparr>) = None"
  using rehydrate_unusable_storage [of "boot (Some Unparseable) (\<lambda>n. 0) []"]
    rehydrate_unusable_storage [of "boot (Some Json_null) (\<lambda>n. 0) []"]
  by (simp add: boot_def)

subsection \<open>C3\<close>

text \<open>
  Claim C3. A resolved login and a resolved refresh put the new session in memory and
  await the scheduler on that world; the rehydration of a stored session whose refresh
  token is alive puts it in memory and calls the scheduler on that world without
  awaiting it. The scheduler, with a session \<open>s\<close> in memory, reads the clock anew for
  each comparison, awaited or not: if the refresh token has expired at the first
  reading it logs out and clears the storage; else if the access token has expired at
  the second reading it tries \<open>refresh\<close> at once (the call returns with the request
  sent; awaited, it goes on as \<open>refresh\<close> does and logs out if that throws); else it
  arms one timeout whose delay is the expiration of the access token, minus one
  minute, minus the third reading, and when that timeout fires it runs \<open>refresh\<close>.
  When the clock reads \<open>now\<close> throughout, a login whose access token expires at \<open>now\<close>
  plus five minutes leaves exactly one timeout, of four minutes, that runs \<open>refresh\<close>
  when it fires.
\<close>

theorem scheduler_branches:
  "(http_tape w = Resolved res # rs \<longrightarrow>
      login mail password w =
        map_option (Pair None)
          (scheduleAutoRefresh (signed_in res (requested (Post_login mail password) w))))
   \<and> (http_tape w = Resolved res # rs \<and> state_value w = Some s \<longrightarrow>
      refresh w =
        map_option (Pair None)
          (scheduleAutoRefresh (signed_in res (requested Post_refresh w))))
   \<and> (localStorage w = Some (Json_State s) \<and> clock w (ticks w) < refreshTokenExpiration s \<longrightarrow>
      install w =
        Some (None, router_beforeEach (world_of (scheduleAutoRefresh_call (rehydrated s w)))))
   \<and> (state_value w = Some s \<and> refreshTokenExpiration s \<le> clock w (ticks w) \<longrightarrow>
      scheduleAutoRefresh w = Some (signed_out ((cancelled w)\<lparr>ticks := Suc (ticks w)\<rparr>))
      \<and> scheduleAutoRefresh_call w =
          Settled (signed_out ((cancelled w)\<lparr>ticks := Suc (ticks w)\<rparr>)))
   \<and> (state_value w = Some s \<and> clock w (ticks w) < refreshTokenExpiration s
       \<and> accessTokenExpiration s \<le> clock w (Suc (ticks w)) \<longrightarrow>
      scheduleAutoRefresh w =
        (case refresh (stale_refresh_world w) of
           None \<Rightarrow> None
         | Some (None, w4) \<Rightarrow> Some w4
         | Some (Some e, w4) \<Rightarrow> Some (signed_out w4))
      \<and> scheduleAutoRefresh_call w = Pending (sent (stale_refresh_world w)))
   \<and> (state_value w = Some s \<and> clock w (ticks w) < refreshTokenExpiration s
       \<and> clock w (Suc (ticks w)) < accessTokenExpiration s \<longrightarrow>
      scheduleAutoRefresh w =
        Some (armed (accessTokenExpiration s - 60000 - clock w (Suc (Suc (ticks w)))) w)
      \<and> scheduleAutoRefresh_call w =
        Settled (armed (accessTokenExpiration s - 60000 - clock w (Suc (Suc (ticks w)))) w)
      \<and> (timers_ok w \<longrightarrow>
           timeouts (armed (accessTokenExpiration s - 60000 - clock w (Suc (Suc (ticks w)))) w) =
             [(next_timeout w, accessTokenExpiration s - 60000 - clock w (Suc (Suc (ticks w))))]
           \<and> timer_fires (next_timeout w)
               (armed (accessTokenExpiration s - 60000 - clock w (Suc (Suc (ticks w)))) w) =
             map_option snd
               (refresh
                  ((armed (accessTokenExpiration s - 60000 - clock w (Suc (Suc (ticks w)))) w)
                     \<lparr>timeouts := []\<rparr>))))
   \<and> (http_tape w = Resolved res # rs \<and> (\<forall>n. clock w n = now) \<and> timers_ok w
       \<and> access_token_expiration res = now + 5 * 60000
       \<and> now < refresh_token_expiration res \<longrightarrow>
      (\<exists>w'. login mail password w = Some (None, w')
         \<and> state_value w' = Some (state_of_response res)
         \<and> timeouts w' = [(next_timeout w, 4 * 60000)]
         \<and> refreshTimerId w' = Some (next_timeout w)
         \<and> timer_fires (next_timeout w) w' =
             map_option snd (refresh (w'\<lparr>timeouts := []\<rparr>))))"
proof (intro conjI impI)
  show "login mail password w =
        map_option (Pair None)
          (scheduleAutoRefresh (signed_in res (requested (Post_login mail password) w)))"
    if "http_tape w = Resolved res # rs"
    using that by (rule login_resolved)
  show "refresh w =
        map_option (Pair None)
          (scheduleAutoRefresh (signed_in res (requested Post_refresh w)))"
    if "http_tape w = Resolved res # rs \<and> state_value w = Some s"
    using that refresh_resolved [of w s res rs] by (simp add: world_steps)
  show "install w =
        Some (None, router_beforeEach (world_of (scheduleAutoRefresh_call (rehydrated s w))))"
    if "localStorage w = Some (Json_State s) \<and> clock w (ticks w) < refreshTokenExpiration s"
    using that by (simp add: install_live)
  show "scheduleAutoRefresh w = Some (signed_out ((cancelled w)\<lparr>ticks := Suc (ticks w)\<rparr>))"
    if "state_value w = Some s \<and> refreshTokenExpiration s \<le> clock w (ticks w)"
    using that by (simp add: schedule_refresh_token_expired signed_out_def)
  show "scheduleAutoRefresh_call w =
          Settled (signed_out ((cancelled w)\<lparr>ticks := Suc (ticks w)\<rparr>))"
    if "state_value w = Some s \<and> refreshTokenExpiration s \<le> clock w (ticks w)"
    using that by (simp add: call_refresh_token_expired signed_out_def)
  show "scheduleAutoRefresh w =
        (case refresh (stale_refresh_world w) of
           None \<Rightarrow> None
         | Some (None, w4) \<Rightarrow> Some w4
         | Some (Some e, w4) \<Rightarrow> Some (signed_out w4))"
    if "state_value w = Some s \<and> clock w (ticks w) < refreshTokenExpiration s
       \<and> accessTokenExpiration s \<le> clock w (Suc (ticks w))"
    using that
    by (simp add: schedule_access_token_expired signed_out_def stale_refresh_world_def
          split: option.splits)
  show "scheduleAutoRefresh_call w = Pending (sent (stale_refresh_world w))"
    if "state_value w = Some s \<and> clock w (ticks w) < refreshTokenExpiration s
       \<and> accessTokenExpiration s \<le> clock w (Suc (ticks w))"
    using that by (simp add: call_stale)
  show "scheduleAutoRefresh w =
        Some (armed (accessTokenExpiration s - 60000 - clock w (Suc (Suc (ticks w)))) w)"
    if "state_value w = Some s \<and> clock w (ticks w) < refreshTokenExpiration s
       \<and> clock w (Suc (ticks w)) < accessTokenExpiration s"
    using that by (simp add: schedule_armed)
  show "scheduleAutoRefresh_call w =
        Settled (armed (accessTokenExpiration s - 60000 - clock w (Suc (Suc (ticks w)))) w)"
    if "state_value w = Some s \<and> clock w (ticks w) < refreshTokenExpiration s
       \<and> clock w (Suc (ticks w)) < accessTokenExpiration s"
    using that by (simp add: call_armed)
  show "timeouts (armed (accessTokenExpiration s - 60000 - clock w (Suc (Suc (ticks w)))) w) =
             [(next_timeout w, accessTokenExpiration s - 60000 - clock w (Suc (Suc (ticks w))))]"
    if "timers_ok w"
    using that by (rule armed_timers_ok)
  show "timer_fires (next_timeout w)
               (armed (accessTokenExpiration s - 60000 - clock w (Suc (Suc (ticks w)))) w) =
             map_option snd
               (refresh
                  ((armed (accessTokenExpiration s - 60000 - clock w (Suc (Suc (ticks w)))) w)
                     \<lparr>timeouts := []\<rparr>))"
    if "timers_ok w"
    using that by (rule timer_fires_armed)
  show "\<exists>w'. login mail password w = Some (None, w')
         \<and> state_value w' = Some (state_of_response res)
         \<and> timeouts w' = [(next_timeout w, 4 * 60000)]
         \<and> refreshTimerId w' = Some (next_timeout w)
         \<and> timer_fires (next_timeout w) w' =
             map_option snd (refresh (w'\<lparr>timeouts := []\<rparr>))"
    if h: "http_tape w = Resolved res # rs \<and> (\<forall>n. clock w n = now) \<and> timers_ok w
       \<and> access_token_expiration res = now + 5 * 60000
       \<and> now < refresh_token_expiration res"
  proof -
    let ?W = "signed_in res (requested (Post_login mail password) w)"
    have st: "state_value ?W = Some (state_of_response res)" by (simp add: signed_in_def)
    have ok: "timers_ok ?W" using h by simp
    have r: "clock ?W (ticks ?W) < refreshTokenExpiration (state_of_response res)"
      using h by (simp add: signed_in_def state_of_response_def)
    have a: "clock ?W (Suc (ticks ?W)) < accessTokenExpiration (state_of_response res)"
      using h by (simp add: signed_in_def state_of_response_def)
    have d: "accessTokenExpiration (state_of_response res) - 60000
               - clock ?W (Suc (Suc (ticks ?W))) = 4 * 60000"
      using h by (simp add: signed_in_def state_of_response_def)
    have n: "next_timeout ?W = next_timeout w" by (simp add: signed_in_def)
    have "login mail password w = map_option (Pair None) (scheduleAutoRefresh ?W)"
      using h by (simp add: login_resolved)
    also have "\<dots> = Some (None, armed (4 * 60000) ?W)"
      using schedule_armed [OF st r a] unfolding d by simp
    finally have l: "login mail password w = Some (None, armed (4 * 60000) ?W)" .
    have t: "timeouts (armed (4 * 60000) ?W) = [(next_timeout w, 4 * 60000)]"
      using armed_timers_ok [OF ok, of "4 * 60000"] n by simp
    have f: "timer_fires (next_timeout w) (armed (4 * 60000) ?W) =
               map_option snd (refresh ((armed (4 * 60000) ?W)\<lparr>timeouts := []\<rparr>))"
      using timer_fires_armed [OF ok, of "4 * 60000"] n by simp
    have i: "refreshTimerId (armed (4 * 60000) ?W) = Some (next_timeout w)"
      by (simp add: armed_def signed_in_def)
    have s: "state_value (armed (4 * 60000) ?W) = Some (state_of_response res)"
      by (simp add: signed_in_def)
    from l s t i f show ?thesis by blast
  qed
qed

theorem scheduler_branches_witness:
  "(\<exists>w'. login ''ada@example.org'' ''secret'' (boot None (\<lambda>n. 0) [Resolved response_a]) =
            Some (None, w')
      \<and> state_value w' = Some session_a \<and> timeouts w' = [(1, 240000)]
      \<and> refreshTimerId w' = Some 1
      \<and> timer_fires 1 w' = map_option snd (refresh (w'\<lparr>timeouts := []\<rparr>)))
   \<and> scheduleAutoRefresh (expired_world []) =
       Some (signed_out ((cancelled (expired_world []))\<lparr>ticks := 4\<rparr>))
   \<and> scheduleAutoRefresh (stale_world [Rejected]) =
       (case refresh (stale_refresh_world (stale_world [Rejected])) of
          None \<Rightarrow> None
        | Some (None, w4) \<Rightarrow> Some w4
        | Some (Some e, w4) \<Rightarrow> Some (signed_out w4))
   \<and> scheduleAutoRefresh_call (stale_world [Rejected]) =
       Pending (sent (stale_refresh_world (stale_world [Rejected])))
   \<and> scheduleAutoRefresh (logged_in_world []) = Some (armed 240000 (logged_in_world []))
   \<and> timeouts (armed 240000 (logged_in_world [])) = [(2, 240000)]
   \<and> timer_fires 2 (armed 240000 (logged_in_world [])) =
       map_option snd (refresh ((armed 240000 (logged_in_world []))\<lparr>timeouts := []\<rparr>))
   \<and> install (boot (Some (Json_State session_a)) (\<lambda>n. 400000) []) =
       Some (None,
             router_beforeEach
               (world_of
                  (scheduleAutoRefresh_call
                     (rehydrated session_a
                        (boot (Some (Json_State session_a)) (\<lambda>n. 400000) [])))))"
proof (intro conjI)
  let ?b = "boot None (\<lambda>n. 0) [Resolved response_a]"
  have "http_tape ?b = Resolved response_a # [] \<and> (\<forall>n. clock ?b n = 0) \<and> timers_ok ?b
       \<and> access_token_expiration response_a = 0 + 5 * 60000
       \<and> 0 < refresh_token_expiration response_a"
    by (simp add: boot_def timers_ok_def response_a_def)
  with scheduler_branches [of ?b response_a "[]" "''ada@example.org''" "''secret''" session_a 0]
  have "\<exists>w'. login ''ada@example.org'' ''secret'' ?b = Some (None, w')
         \<and> state_value w' = Some (state_of_response response_a)
         \<and> timeouts w' = [(next_timeout ?b, 4 * 60000)]
         \<and> refreshTimerId w' = Some (next_timeout ?b)
         \<and> timer_fires (next_timeout ?b) w' =
             map_option snd (refresh (w'\<lparr>timeouts := []\<rparr>))"
    by blast
  then show "\<exists>w'. login ''ada@example.org'' ''secret'' ?b = Some (None, w')
      \<and> state_value w' = Some session_a \<and> timeouts w' = [(1, 240000)]
      \<and> refreshTimerId w' = Some 1
      \<and> timer_fires 1 w' = map_option snd (refresh (w'\<lparr>timeouts := []\<rparr>))"
    by (simp add: state_of_response_a boot_def)
next
  have "state_value (expired_world []) = Some session_a
        \<and> refreshTokenExpiration session_a \<le> clock (expired_world []) (ticks (expired_world []))"
    by (simp add: expired_world_def logged_in_world_def session_a_def)
  with scheduler_branches [of "expired_world []" response_a "[]" "[]" "[]" session_a 0]
  have "scheduleAutoRefresh (expired_world []) =
      Some (signed_out ((cancelled (expired_world []))\<lparr>ticks := Suc (ticks (expired_world []))\<rparr>))"
    by blast
  then show "scheduleAutoRefresh (expired_world []) =
       Some (signed_out ((cancelled (expired_world []))\<lparr>ticks := 4\<rparr>))"
    by (simp add: expired_world_def logged_in_world_def)
next
  let ?v = "stale_world [Rejected]"
  have h: "state_value ?v = Some session_a \<and> clock ?v (ticks ?v) < refreshTokenExpiration session_a
       \<and> accessTokenExpiration session_a \<le> clock ?v (Suc (ticks ?v))"
    by (simp add: stale_world_def logged_in_world_def session_a_def)
  with scheduler_branches [of ?v response_a "[]" "[]" "[]" session_a 0]
  show "scheduleAutoRefresh ?v =
       (case refresh (stale_refresh_world ?v) of
          None \<Rightarrow> None
        | Some (None, w4) \<Rightarrow> Some w4
        | Some (Some e, w4) \<Rightarrow> Some (signed_out w4))"
    by blast
  from h scheduler_branches [of ?v response_a "[]" "[]" "[]" session_a 0]
  show "scheduleAutoRefresh_call ?v = Pending (sent (stale_refresh_world ?v))"
    by blast
next
  let ?l = "logged_in_world []"
  have h: "state_value ?l = Some session_a \<and> clock ?l (ticks ?l) < refreshTokenExpiration session_a
       \<and> clock ?l (Suc (ticks ?l)) < accessTokenExpiration session_a"
    by (simp add: logged_in_world_def session_a_def)
  have d: "accessTokenExpiration session_a - 60000 - clock ?l (Suc (Suc (ticks ?l))) = 240000"
    by (simp add: logged_in_world_def session_a_def)
  have ok: "timers_ok ?l" by (simp add: timers_ok_def logged_in_world_def)
  from scheduler_branches [of ?l response_a "[]" "[]" "[]" session_a 0] h
  have "scheduleAutoRefresh ?l =
        Some (armed (accessTokenExpiration session_a - 60000 - clock ?l (Suc (Suc (ticks ?l)))) ?l)
      \<and> (timers_ok ?l \<longrightarrow>
           timeouts (armed (accessTokenExpiration session_a - 60000
                              - clock ?l (Suc (Suc (ticks ?l)))) ?l) =
             [(next_timeout ?l, accessTokenExpiration session_a - 60000
                                  - clock ?l (Suc (Suc (ticks ?l))))]
           \<and> timer_fires (next_timeout ?l)
               (armed (accessTokenExpiration session_a - 60000
                         - clock ?l (Suc (Suc (ticks ?l)))) ?l) =
             map_option snd
               (refresh
                  ((armed (accessTokenExpiration session_a - 60000
                             - clock ?l (Suc (Suc (ticks ?l)))) ?l)
                     \<lparr>timeouts := []\<rparr>)))"
    by blast
  with ok have both: "scheduleAutoRefresh ?l = Some (armed 240000 ?l)
      \<and> timeouts (armed 240000 ?l) = [(next_timeout ?l, 240000)]
      \<and> timer_fires (next_timeout ?l) (armed 240000 ?l) =
          map_option snd (refresh ((armed 240000 ?l)\<lparr>timeouts := []\<rparr>))"
    unfolding d by blast
  from both show "scheduleAutoRefresh ?l = Some (armed 240000 ?l)" by blast
  from both show "timeouts (armed 240000 ?l) = [(2, 240000)]"
    by (simp add: logged_in_world_def)
  from both show "timer_fires 2 (armed 240000 ?l) =
       map_option snd (refresh ((armed 240000 ?l)\<lparr>timeouts := []\<rparr>))"
    by (simp add: logged_in_world_def)
next
  let ?b = "boot (Some (Json_State session_a)) (\<lambda>n. 400000) []"
  have "localStorage ?b = Some (Json_State session_a)
        \<and> clock ?b (ticks ?b) < refreshTokenExpiration session_a"
    by (simp add: boot_def session_a_def)
  with scheduler_branches [of ?b response_a "[]" "[]" "[]" session_a 0]
  show "install ?b =
       Some (None,
             router_beforeEach
               (world_of (scheduleAutoRefresh_call (rehydrated session_a ?b))))"
    by blast
qed

subsection \<open>C4\<close>

text \<open>
  Claim C4. With \<open>requiresAuth\<close> and \<open>redirectIfLoggedIn\<close> each read as true when the
  metadata or the flag is missing (\<open>meta_flag\<close>), the guard redirects to Login exactly
  when \<open>requiresAuth\<close> holds and there is no session, redirects to Home exactly when
  \<open>requiresAuth\<close> is false, \<open>redirectIfLoggedIn\<close> holds and there is a session, and lets
  the navigation through in every other combination.
\<close>

theorem guard_decision:
  "(beforeEach meta w = Redirect Login) =
     (meta_flag meta requiresAuth \<and> state_value w = None)
   \<and> (beforeEach meta w = Redirect Home) =
     (\<not> meta_flag meta requiresAuth \<and> meta_flag meta redirectIfLoggedIn \<and> state_value w \<noteq> None)
   \<and> (beforeEach meta w = Proceed) =
     (\<not> (meta_flag meta requiresAuth \<and> state_value w = None)
      \<and> \<not> (\<not> meta_flag meta requiresAuth \<and> meta_flag meta redirectIfLoggedIn \<and> state_value w \<noteq> None))"
  unfolding beforeEach_def nullish_bind by auto

theorem guard_decision_witness:
  "beforeEach (Some \<lparr>requiresAuth = Some False, redirectIfLoggedIn = None\<rparr>)
     (logged_in_world []) = Redirect Home
   \<and> beforeEach None (boot None (\<lambda>n. 0) []) = Redirect Login
   \<and> beforeEach None (logged_in_world []) = Proceed"
  using guard_decision [of "Some \<lparr>requiresAuth = Some False, redirectIfLoggedIn = None\<rparr>"
          "logged_in_world []"]
    guard_decision [of None "boot None (\<lambda>n. 0) []"]
    guard_decision [of None "logged_in_world []"]
  by (simp add: meta_flag_def logged_in_world_def boot_def)

subsection \<open>C5\<close>

text \<open>
  Claim C5. With a session in the storage: if its refresh token has expired when
  \<open>readStateFromStorage\<close> reads the clock, \<open>install\<close> at process start (no session in
  memory) returns logged out with the storage entry removed. If it has not, \<open>install\<close>
  puts the stored session in memory and calls the scheduler on that world; and when the
  refresh token is still alive at the scheduler's own reading, \<open>install\<close> returns logged
  in with that session and the entry in place, the scheduler having armed a timeout
  (access token alive: no request is sent) or sent the refresh request that is then in
  flight (access token expired: no timeout is armed). Should the refresh token expire
  between the two readings, the scheduler logs out and removes the entry.
\<close>

theorem rehydrate_expiry:
  assumes "localStorage w = Some (Json_State p)"
  shows "(refreshTokenExpiration p \<le> clock w (ticks w) \<and> state_value w = None \<longrightarrow>
       (\<exists>w'. install w = Some (None, w') \<and> state_value w' = None \<and> localStorage w' = None))
   \<and> (clock w (ticks w) < refreshTokenExpiration p \<longrightarrow>
       state_value (rehydrated p w) = Some p
       \<and> install w =
           Some (None, router_beforeEach (world_of (scheduleAutoRefresh_call (rehydrated p w)))))
   \<and> (clock w (ticks w) < refreshTokenExpiration p
       \<and> clock w (Suc (ticks w)) < refreshTokenExpiration p \<longrightarrow>
       (\<exists>w'. install w = Some (None, w') \<and> state_value w' = Some p
          \<and> localStorage w' = Some (Json_State p) \<and> guards w' = Suc (guards w)
          \<and> (clock w (Suc (Suc (ticks w))) < accessTokenExpiration p \<longrightarrow>
               timeouts w' =
                 timeouts (cancelled w) @
                   [(next_timeout w,
                     accessTokenExpiration p - 60000 - clock w (Suc (Suc (Suc (ticks w)))))]
               \<and> http_calls w' = http_calls w \<and> in_flight w' = in_flight w)
          \<and> (accessTokenExpiration p \<le> clock w (Suc (Suc (ticks w))) \<longrightarrow>
               timeouts w' = timeouts (cancelled w)
               \<and> http_calls w' = http_calls w @ [Post_refresh]
               \<and> in_flight w' = Suc (in_flight w))))
   \<and> (clock w (ticks w) < refreshTokenExpiration p
       \<and> refreshTokenExpiration p \<le> clock w (Suc (ticks w)) \<longrightarrow>
       (\<exists>w'. install w = Some (None, w') \<and> state_value w' = None \<and> localStorage w' = None))"
proof (intro conjI impI)
  assume "refreshTokenExpiration p \<le> clock w (ticks w) \<and> state_value w = None"
  then show "\<exists>w'. install w = Some (None, w') \<and> state_value w' = None \<and> localStorage w' = None"
    using install_expired [OF assms] by simp
next
  assume "clock w (ticks w) < refreshTokenExpiration p"
  then show "install w =
           Some (None, router_beforeEach (world_of (scheduleAutoRefresh_call (rehydrated p w))))"
    using install_live [OF assms] by simp
next
  show "state_value (rehydrated p w) = Some p" by simp
next
  assume h: "clock w (ticks w) < refreshTokenExpiration p
       \<and> clock w (Suc (ticks w)) < refreshTokenExpiration p"
  then show "\<exists>w'. install w = Some (None, w') \<and> state_value w' = Some p
          \<and> localStorage w' = Some (Json_State p) \<and> guards w' = Suc (guards w)
          \<and> (clock w (Suc (Suc (ticks w))) < accessTokenExpiration p \<longrightarrow>
               timeouts w' =
                 timeouts (cancelled w) @
                   [(next_timeout w,
                     accessTokenExpiration p - 60000 - clock w (Suc (Suc (Suc (ticks w)))))]
               \<and> http_calls w' = http_calls w \<and> in_flight w' = in_flight w)
          \<and> (accessTokenExpiration p \<le> clock w (Suc (Suc (ticks w))) \<longrightarrow>
               timeouts w' = timeouts (cancelled w)
               \<and> http_calls w' = http_calls w @ [Post_refresh]
               \<and> in_flight w' = Suc (in_flight w))"
    by (rule install_with_session [OF assms])
next
  assume h: "clock w (ticks w) < refreshTokenExpiration p
       \<and> refreshTokenExpiration p \<le> clock w (Suc (ticks w))"
  let ?W = "rehydrated p w"
  have st: "state_value ?W = Some p" by simp
  have "scheduleAutoRefresh_call ?W =
     Settled ((cancelled ?W)\<lparr>ticks := Suc (ticks ?W), state_value := None, localStorage := None\<rparr>)"
    using h by (intro call_refresh_token_expired [OF st]) simp
  with h install_live [OF assms]
  show "\<exists>w'. install w = Some (None, w') \<and> state_value w' = None \<and> localStorage w' = None"
    by (simp add: router_beforeEach_def)
qed

theorem rehydrate_expiry_witness:
  "(\<exists>w'. install (boot (Some (Json_State session_a)) (\<lambda>n. 4000000) []) = Some (None, w')
       \<and> state_value w' = None \<and> localStorage w' = None)
   \<and> (\<exists>w'. install (boot (Some (Json_State session_a)) (\<lambda>n. 0) []) = Some (None, w')
       \<and> state_value w' = Some session_a \<and> localStorage w' = Some (Json_State session_a)
       \<and> timeouts w' = [(1, 240000)] \<and> http_calls w' = [] \<and> in_flight w' = 0)
   \<and> (\<exists>w'. install (boot (Some (Json_State session_a)) (\<lambda>n. 400000) []) = Some (None, w')
       \<and> state_value w' = Some session_a \<and> localStorage w' = Some (Json_State session_a)
       \<and> timeouts w' = [] \<and> http_calls w' = [Post_refresh] \<and> in_flight w' = 1)"
proof (intro conjI)
  let ?x = "boot (Some (Json_State session_a)) (\<lambda>n. 4000000) []"
  have s: "localStorage ?x = Some (Json_State session_a)" by (simp add: boot_def)
  have "refreshTokenExpiration session_a \<le> clock ?x (ticks ?x) \<and> state_value ?x = None"
    by (simp add: boot_def session_a_def)
  with rehydrate_expiry [OF s]
  show "\<exists>w'. install ?x = Some (None, w') \<and> state_value w' = None \<and> localStorage w' = None"
    by blast
next
  let ?l = "boot (Some (Json_State session_a)) (\<lambda>n. 0) []"
  have s: "localStorage ?l = Some (Json_State session_a)" by (simp add: boot_def)
  have h: "clock ?l (ticks ?l) < refreshTokenExpiration session_a
       \<and> clock ?l (Suc (ticks ?l)) < refreshTokenExpiration session_a"
    by (simp add: boot_def session_a_def)
  have a: "clock ?l (Suc (Suc (ticks ?l))) < accessTokenExpiration session_a"
    by (simp add: boot_def session_a_def)
  from rehydrate_expiry [OF s] h a
  have "\<exists>w'. install ?l = Some (None, w') \<and> state_value w' = Some session_a
          \<and> localStorage w' = Some (Json_State session_a)
          \<and> timeouts w' =
                 timeouts (cancelled ?l) @
                   [(next_timeout ?l,
                     accessTokenExpiration session_a - 60000
                       - clock ?l (Suc (Suc (Suc (ticks ?l)))))]
          \<and> http_calls w' = http_calls ?l \<and> in_flight w' = in_flight ?l"
    by blast
  then show "\<exists>w'. install ?l = Some (None, w')
       \<and> state_value w' = Some session_a \<and> localStorage w' = Some (Json_State session_a)
       \<and> timeouts w' = [(1, 240000)] \<and> http_calls w' = [] \<and> in_flight w' = 0"
    by (simp add: boot_def session_a_def cancelled_timeouts)
next
  let ?v = "boot (Some (Json_State session_a)) (\<lambda>n. 400000) []"
  have s: "localStorage ?v = Some (Json_State session_a)" by (simp add: boot_def)
  have h: "clock ?v (ticks ?v) < refreshTokenExpiration session_a
       \<and> clock ?v (Suc (ticks ?v)) < refreshTokenExpiration session_a"
    by (simp add: boot_def session_a_def)
  have a: "accessTokenExpiration session_a \<le> clock ?v (Suc (Suc (ticks ?v)))"
    by (simp add: boot_def session_a_def)
  from rehydrate_expiry [OF s] h a
  have "\<exists>w'. install ?v = Some (None, w') \<and> state_value w' = Some session_a
          \<and> localStorage w' = Some (Json_State session_a)
          \<and> timeouts w' = timeouts (cancelled ?v)
          \<and> http_calls w' = http_calls ?v @ [Post_refresh]
          \<and> in_flight w' = Suc (in_flight ?v)"
    by blast
  then show "\<exists>w'. install ?v = Some (None, w')
       \<and> state_value w' = Some session_a \<and> localStorage w' = Some (Json_State session_a)
       \<and> timeouts w' = [] \<and> http_calls w' = [Post_refresh] \<and> in_flight w' = 1"
    by (simp add: boot_def cancelled_timeouts)
qed

subsection \<open>C6\<close>

text \<open>
  Claim C6 says that exactly one timeout is pending after any transition into LoggedIn.
  At process start with a stored session whose access token has expired and whose
  refresh token has not, \<open>install\<close> returns logged in with the refresh request in flight
  and no timeout pending.
\<close>

theorem rehydrate_leaves_no_timer:
  "\<exists>w'. install (boot (Some (Json_State session_a)) (\<lambda>n. 400000) []) = Some (None, w')
      \<and> state_value w' = Some session_a \<and> timeouts w' = [] \<and> in_flight w' = 1
      \<and> http_calls w' = [Post_refresh]"
proof -
  let ?v = "boot (Some (Json_State session_a)) (\<lambda>n. 400000) []"
  have "\<exists>w'. install ?v = Some (None, w') \<and> state_value w' = Some session_a
           \<and> timeouts w' = [] \<and> in_flight w' = Suc (in_flight ?v)
           \<and> http_calls w' = http_calls ?v @ [Post_refresh]"
    by (rule install_stale) (simp_all add: boot_def session_a_def timers_ok_def)
  then show ?thesis by (simp add: boot_def)
qed

text \<open>
  Claim C6, amended. Every world reached from the initial one by any sequence of
  logins, refreshes, logouts, rehydrations, firing timeouts and arriving responses
  satisfies \<open>timers_ok\<close>, so at most one timeout is pending in it; and no timeout that
  was pending before a run of the scheduler, awaited or not, is pending after it.
  Exactly one timeout is pending after a login or a refresh that returns normally with
  a session in memory, after a rehydration that finds both stored tokens alive, and
  after the arrival of a response that brings a session with both tokens alive. A
  rehydration that finds the refresh token alive and the access token expired returns
  logged in with the refresh request in flight and no timeout pending.
\<close>

theorem one_refresh_timer:
  "(run ops (boot st clk tape) = Some w \<longrightarrow> timers_ok w \<and> length (timeouts w) \<le> 1)
   \<and> (timers_ok w \<and> login mail password w = Some (None, w') \<and> state_value w' \<noteq> None \<longrightarrow>
        length (timeouts w') = 1)
   \<and> (timers_ok w \<and> refresh w = Some (None, w') \<and> state_value w' \<noteq> None \<longrightarrow>
        length (timeouts w') = 1)
   \<and> (timers_ok w \<and> localStorage w = Some (Json_State p) \<and> alive p w \<longrightarrow>
        (\<exists>v. install w = Some (None, v) \<and> state_value v = Some p
           \<and> length (timeouts v) = 1 \<and> in_flight v = in_flight w))
   \<and> (timers_ok w \<and> localStorage w = Some (Json_State p)
       \<and> clock w (ticks w) < refreshTokenExpiration p
       \<and> clock w (Suc (ticks w)) < refreshTokenExpiration p
       \<and> accessTokenExpiration p \<le> clock w (Suc (Suc (ticks w))) \<longrightarrow>
        (\<exists>v. install w = Some (None, v) \<and> state_value v = Some p
           \<and> timeouts v = [] \<and> in_flight v = Suc (in_flight w)
           \<and> http_calls v = http_calls w @ [Post_refresh]))
   \<and> (timers_ok w \<and> 0 < in_flight w \<and> http_tape w = Resolved res # rs
       \<and> clock w (ticks w) < refresh_token_expiration res
       \<and> clock w (Suc (ticks w)) < access_token_expiration res \<longrightarrow>
        state_value (response_arrives w) = Some (state_of_response res)
        \<and> length (timeouts (response_arrives w)) = 1)
   \<and> (timers_ok w \<and> scheduleAutoRefresh w = Some w' \<longrightarrow>
        list_all (\<lambda>t. t \<notin> set (timeouts w)) (timeouts w'))
   \<and> (timers_ok w \<longrightarrow>
        list_all (\<lambda>t. t \<notin> set (timeouts w))
          (timeouts (world_of (scheduleAutoRefresh_call w))))"
proof (intro conjI impI)
  assume "run ops (boot st clk tape) = Some w"
  then show ok: "timers_ok w" using boot_timers_ok by (rule run_timers_ok)
  then show "length (timeouts w) \<le> 1" by (rule timers_ok_length)
next
  assume h: "timers_ok w \<and> login mail password w = Some (None, w') \<and> state_value w' \<noteq> None"
  then have l: "login mail password w = Some (None, w')" by simp
  from l show "length (timeouts w') = 1"
  proof (cases rule: login_cases)
    case (resolved res rs)
    from schedule_one_timer [OF resolved(3)] h show ?thesis by simp
  qed simp
next
  assume h: "timers_ok w \<and> refresh w = Some (None, w') \<and> state_value w' \<noteq> None"
  then have l: "refresh w = Some (None, w')" by simp
  from l show "length (timeouts w') = 1"
  proof (cases rule: refresh_cases)
    case logged_out
    with h show ?thesis by simp
  next
    case (resolved s res rs)
    from schedule_one_timer [OF resolved(4)] h show ?thesis by simp
  qed simp
next
  assume "timers_ok w \<and> localStorage w = Some (Json_State p) \<and> alive p w"
  then show "\<exists>v. install w = Some (None, v) \<and> state_value v = Some p
           \<and> length (timeouts v) = 1 \<and> in_flight v = in_flight w"
    using install_fresh [of w p] by simp
next
  assume "timers_ok w \<and> localStorage w = Some (Json_State p)
       \<and> clock w (ticks w) < refreshTokenExpiration p
       \<and> clock w (Suc (ticks w)) < refreshTokenExpiration p
       \<and> accessTokenExpiration p \<le> clock w (Suc (Suc (ticks w)))"
  then show "\<exists>v. install w = Some (None, v) \<and> state_value v = Some p
           \<and> timeouts v = [] \<and> in_flight v = Suc (in_flight w)
           \<and> http_calls v = http_calls w @ [Post_refresh]"
    using install_stale [of w p] by simp
next
  assume h: "timers_ok w \<and> 0 < in_flight w \<and> http_tape w = Resolved res # rs
       \<and> clock w (ticks w) < refresh_token_expiration res
       \<and> clock w (Suc (ticks w)) < access_token_expiration res"
  then show "state_value (response_arrives w) = Some (state_of_response res)"
    using response_brings_session [of w res rs] by simp
  from h show "length (timeouts (response_arrives w)) = 1"
    using response_arms_timer [of w res rs] by simp
next
  assume h: "timers_ok w \<and> scheduleAutoRefresh w = Some w'"
  then have "list_all (\<lambda>t. next_timeout w \<le> fst t) (timeouts w')"
    by (intro schedule_fresh_timers) simp_all
  moreover have "\<forall>t\<in>set (timeouts w). fst t < next_timeout w"
    using h by (auto simp add: timers_ok_iff)
  ultimately show "list_all (\<lambda>t. t \<notin> set (timeouts w)) (timeouts w')"
    by (fastforce simp add: list_all_iff)
next
  assume h: "timers_ok w"
  then have "list_all (\<lambda>t. next_timeout w \<le> fst t)
               (timeouts (world_of (scheduleAutoRefresh_call w)))"
    by (rule call_fresh_timers)
  moreover have "\<forall>t\<in>set (timeouts w). fst t < next_timeout w"
    using h by (auto simp add: timers_ok_iff)
  ultimately show "list_all (\<lambda>t. t \<notin> set (timeouts w))
          (timeouts (world_of (scheduleAutoRefresh_call w)))"
    by (fastforce simp add: list_all_iff)
qed

theorem one_refresh_timer_witness:
  "timers_ok (logged_in_world []) \<and> length (timeouts (logged_in_world [])) \<le> 1
   \<and> length (timeouts ((logged_in_world [])\<lparr>guards := 0\<rparr>)) = 1
   \<and> (\<exists>v. install (boot (Some (Json_State session_a)) (\<lambda>n. 0) []) = Some (None, v)
        \<and> state_value v = Some session_a \<and> length (timeouts v) = 1 \<and> in_flight v = 0)
   \<and> (\<exists>v. install (boot (Some (Json_State session_a)) (\<lambda>n. 400000) []) = Some (None, v)
        \<and> state_value v = Some session_a \<and> timeouts v = [] \<and> in_flight v = 1
        \<and> http_calls v = [Post_refresh])
   \<and> state_value (response_arrives (awaiting_world [Resolved response_b])) =
       Some (state_of_response response_b)
   \<and> length (timeouts (response_arrives (awaiting_world [Resolved response_b]))) = 1
   \<and> list_all (\<lambda>t. t \<notin> set (timeouts (logged_in_world [])))
        (timeouts (armed 240000 (logged_in_world [])))
   \<and> list_all (\<lambda>t. t \<notin> set (timeouts (logged_in_world [])))
        (timeouts (world_of (scheduleAutoRefresh_call (logged_in_world []))))"
proof (intro conjI)
  note r = logged_in_world_reached [of "[]"]
  from one_refresh_timer [where ops = "[Op_install, Op_login ''ada@example.org'' ''secret'']"
         and st = None and clk = "\<lambda>n. 0" and tape = "[Resolved response_a]"
         and w = "logged_in_world []"] r
  show "timers_ok (logged_in_world [])" and "length (timeouts (logged_in_world [])) \<le> 1"
    by blast+
next
  let ?b = "boot None (\<lambda>n. 0) [Resolved response_a]"
  have "timers_ok ?b
        \<and> login ''ada@example.org'' ''secret'' ?b = Some (None, (logged_in_world [])\<lparr>guards := 0\<rparr>)
        \<and> state_value ((logged_in_world [])\<lparr>guards := 0\<rparr>) \<noteq> None"
    using login_at_boot [of "[]"] by (simp add: boot_timers_ok logged_in_world_def)
  with one_refresh_timer [where w = ?b and mail = "''ada@example.org''"
         and password = "''secret''" and w' = "(logged_in_world [])\<lparr>guards := 0\<rparr>"]
  show "length (timeouts ((logged_in_world [])\<lparr>guards := 0\<rparr>)) = 1" by blast
next
  let ?l = "boot (Some (Json_State session_a)) (\<lambda>n. 0) []"
  have "timers_ok ?l \<and> localStorage ?l = Some (Json_State session_a) \<and> alive session_a ?l"
    by (simp add: boot_timers_ok) (simp add: boot_def alive_def session_a_def)
  with one_refresh_timer [where w = ?l and p = session_a]
  have "\<exists>v. install ?l = Some (None, v) \<and> state_value v = Some session_a
           \<and> length (timeouts v) = 1 \<and> in_flight v = in_flight ?l" by blast
  then show "\<exists>v. install ?l = Some (None, v)
        \<and> state_value v = Some session_a \<and> length (timeouts v) = 1 \<and> in_flight v = 0"
    by (simp add: boot_def)
next
  let ?s = "boot (Some (Json_State session_a)) (\<lambda>n. 400000) []"
  have "timers_ok ?s \<and> localStorage ?s = Some (Json_State session_a)
       \<and> clock ?s (ticks ?s) < refreshTokenExpiration session_a
       \<and> clock ?s (Suc (ticks ?s)) < refreshTokenExpiration session_a
       \<and> accessTokenExpiration session_a \<le> clock ?s (Suc (Suc (ticks ?s)))"
    by (simp add: boot_timers_ok) (simp add: boot_def session_a_def)
  with one_refresh_timer [where w = ?s and p = session_a]
  have "\<exists>v. install ?s = Some (None, v) \<and> state_value v = Some session_a
           \<and> timeouts v = [] \<and> in_flight v = Suc (in_flight ?s)
           \<and> http_calls v = http_calls ?s @ [Post_refresh]" by blast
  then show "\<exists>v. install ?s = Some (None, v)
        \<and> state_value v = Some session_a \<and> timeouts v = [] \<and> in_flight v = 1
        \<and> http_calls v = [Post_refresh]"
    by (simp add: boot_def)
next
  let ?v = "awaiting_world [Resolved response_b]"
  have h: "timers_ok ?v \<and> 0 < in_flight ?v \<and> http_tape ?v = Resolved response_b # []
       \<and> clock ?v (ticks ?v) < refresh_token_expiration response_b
       \<and> clock ?v (Suc (ticks ?v)) < access_token_expiration response_b"
    by (simp add: awaiting_world_def timers_ok_def response_b_def)
  from one_refresh_timer [where w = ?v and res = response_b and rs = "[]"] h
  show "state_value (response_arrives ?v) = Some (state_of_response response_b)" by blast
  from one_refresh_timer [where w = ?v and res = response_b and rs = "[]"] h
  show "length (timeouts (response_arrives ?v)) = 1" by blast
next
  have ok: "timers_ok (logged_in_world [])" by (simp add: timers_ok_def logged_in_world_def)
  then have "timers_ok (logged_in_world [])
        \<and> scheduleAutoRefresh (logged_in_world []) = Some (armed 240000 (logged_in_world []))"
    using schedule_logged_in_world [of "[]"] by simp
  with one_refresh_timer [where w = "logged_in_world []"
         and w' = "armed 240000 (logged_in_world [])"]
  show "list_all (\<lambda>t. t \<notin> set (timeouts (logged_in_world [])))
        (timeouts (armed 240000 (logged_in_world [])))" by blast
  from ok one_refresh_timer [where w = "logged_in_world []"]
  show "list_all (\<lambda>t. t \<notin> set (timeouts (logged_in_world [])))
        (timeouts (world_of (scheduleAutoRefresh_call (logged_in_world []))))" by blast
qed

subsection \<open>C7\<close>




subsection \<open>C8\<close>

text \<open>
  Claim C8. Logged in, \<open>logout\<close> sends the request to the logout endpoint and, whether
  it is rejected or resolved (\<open>r\<close> is either), returns without an error in a world
  where no timeout is pending, the state is null, the storage entry is gone and the
  router has been sent to Login. The request must settle (the script is not empty);
  \<open>timers_ok\<close> holds of every world the operations reach from the initial one.
\<close>

theorem logout_clears:
  assumes "state_value w = Some s" and "http_tape w = r # rs" and "timers_ok w"
  shows "\<exists>w'. logout w = Some (None, w')
           \<and> http_calls w' = http_calls w @ [Post_logout]
           \<and> timeouts w' = [] \<and> state_value w' = None \<and> localStorage w' = None
           \<and> router_pushes w' = router_pushes w @ [Login]"
proof -
  have "timeouts (cancelled (requested Post_logout w)) = []"
    using assms(3) by (intro cancelled_timers_ok) simp
  then show ?thesis
    using logout_logged_in [OF assms(1,2)] by (simp add: clearTokens_eq)
qed

theorem logout_clears_witness:
  "\<exists>w'. logout (logged_in_world [Rejected]) = Some (None, w')
      \<and> http_calls w' = http_calls (logged_in_world [Rejected]) @ [Post_logout]
      \<and> timeouts w' = [] \<and> state_value w' = None \<and> localStorage w' = None
      \<and> router_pushes w' = router_pushes (logged_in_world [Rejected]) @ [Login]"
proof -
  have 1: "state_value (logged_in_world [Rejected]) = Some session_a"
    by (simp add: logged_in_world_def)
  have 2: "http_tape (logged_in_world [Rejected]) = Rejected # []"
    by (simp add: logged_in_world_def)
  have 3: "timers_ok (logged_in_world [Rejected])"
    by (simp add: logged_in_world_def timers_ok_def)
  show ?thesis by (rule logout_clears [OF 1 2 3])
qed

subsection \<open>C9\<close>

text \<open>
  Claim C9. After a login that returns normally, after a refresh or a logout of a
  logged-in session that returns normally, and after a rehydration at process start
  that returns normally, the storage holds the serialisation of the session in memory,
  and nothing when there is none (\<open>in_sync\<close>); when the scheduler logs a session out the
  storage entry is gone. A rehydration that raises has changed nothing, and it raises
  only on a stored text that \<open>JSON.parse\<close> rejects. Every other operation, failed
  ones and firing timeouts included, keeps the two in agreement; so they agree in every
  world reached, by any sequence of such operations, from the world a rehydration at
  process start returned normally.
\<close>

theorem storage_in_sync:
  "(login mail password w = Some (None, w') \<longrightarrow> in_sync w')
   \<and> (state_value w \<noteq> None \<and> refresh w = Some (None, w') \<longrightarrow> in_sync w')
   \<and> (state_value w \<noteq> None \<and> logout w = Some (e, w') \<longrightarrow> in_sync w')
   \<and> (state_value w = None \<and> install w = Some (None, w') \<longrightarrow> in_sync w')
   \<and> (install w = Some (Some x, w') \<longrightarrow> w' = w \<and> localStorage w = Some Unparseable)
   \<and> (state_value w \<noteq> None \<and> scheduleAutoRefresh w = Some w' \<and> state_value w' = None \<longrightarrow>
        localStorage w' = None)
   \<and> (in_sync w \<and> a \<noteq> Op_install \<and> step a w = Some w' \<longrightarrow> in_sync w')
   \<and> (install (boot st clk tape) = Some (None, w) \<and> Op_install \<notin> set ops
       \<and> run ops w = Some w' \<longrightarrow> in_sync w')"
proof (intro conjI impI)
  assume "login mail password w = Some (None, w')"
  then show "in_sync w'"
  proof (cases rule: login_cases)
    case (resolved res rs)
    from schedule_in_sync [OF resolved(3)] show ?thesis by simp
  qed simp
next
  assume h: "state_value w \<noteq> None \<and> refresh w = Some (None, w')"
  then have "refresh w = Some (None, w')" by simp
  then show "in_sync w'"
  proof (cases rule: refresh_cases)
    case (resolved s res rs)
    from schedule_in_sync [OF resolved(4)] show ?thesis by simp
  qed (use h in simp_all)
next
  assume h: "state_value w \<noteq> None \<and> logout w = Some (e, w')"
  then obtain s where s: "state_value w = Some s" by auto
  show "in_sync w'"
  proof (cases "http_tape w")
    case Nil
    with s h show ?thesis by (simp add: logout_def http_post_def)
  next
    case (Cons r rs)
    from logout_logged_in [OF s Cons] h show ?thesis by auto
  qed
next
  assume h: "state_value w = None \<and> install w = Some (None, w')"
  then have "install w = Some (None, w')" and "state_value w = None" by simp_all
  then show "in_sync w'" by (rule install_in_sync)
next
  assume h: "install w = Some (Some x, w')"
  from h show "w' = w" by (cases rule: install_cases) simp_all
  from h show "localStorage w = Some Unparseable" by (cases rule: install_cases) simp_all
next
  assume "state_value w \<noteq> None \<and> scheduleAutoRefresh w = Some w' \<and> state_value w' = None"
  then show "localStorage w' = None" by (intro schedule_forced_logout [of w]) simp_all
next
  assume "in_sync w \<and> a \<noteq> Op_install \<and> step a w = Some w'"
  then show "in_sync w'" using step_in_sync [of a w w'] by simp
next
  assume h: "install (boot st clk tape) = Some (None, w) \<and> Op_install \<notin> set ops
       \<and> run ops w = Some w'"
  then have "install (boot st clk tape) = Some (None, w)" and r: "run ops w = Some w'"
    and n: "Op_install \<notin> set ops" by simp_all
  then have "in_sync w" by (intro install_boot_in_sync [of st clk tape])
  with r show "in_sync w'" using n by (rule run_in_sync)
qed

theorem storage_in_sync_witness:
  "in_sync ((logged_in_world [])\<lparr>guards := 0\<rparr>)
   \<and> in_sync (clearTokens (requested Post_logout (logged_in_world [Rejected])))
   \<and> in_sync ((boot None (\<lambda>n. 0) [])\<lparr>localStorage := None, guards := 1\<rparr>)
   \<and> localStorage (signed_out ((cancelled (expired_world []))\<lparr>ticks := 4\<rparr>)) = None"
proof (intro conjI)
  let ?b = "boot None (\<lambda>n. 0) [Resolved response_a]"
  from storage_in_sync [of "''ada@example.org''" "''secret''" ?b "(logged_in_world [])\<lparr>guards := 0\<rparr>"]
    login_at_boot [of "[]"]
  show "in_sync ((logged_in_world [])\<lparr>guards := 0\<rparr>)" by blast
next
  let ?l = "logged_in_world [Rejected]"
  let ?o = "clearTokens (requested Post_logout ?l)"
  have "state_value ?l \<noteq> None \<and> logout ?l = Some (None, ?o)"
    using logout_logged_in [of ?l session_a Rejected "[]"] by (simp add: logged_in_world_def)
  with storage_in_sync [of "[]" "[]" ?l ?o None]
  show "in_sync ?o" by blast
next
  let ?b = "boot None (\<lambda>n. 0) []"
  let ?o = "?b\<lparr>localStorage := None, guards := 1\<rparr>"
  have "state_value ?b = None \<and> install ?b = Some (None, ?o)"
    using install_absent [of ?b] by (simp add: boot_def)
  with storage_in_sync [of "[]" "[]" ?b ?o]
  show "in_sync ?o" by blast
next
  let ?x = "expired_world []"
  let ?o = "signed_out ((cancelled ?x)\<lparr>ticks := 4\<rparr>)"
  have "state_value ?x \<noteq> None \<and> scheduleAutoRefresh ?x = Some ?o \<and> state_value ?o = None"
    using schedule_expired_world [of "[]"]
    by (simp add: expired_world_def logged_in_world_def signed_out_def)
  with storage_in_sync [of "[]" "[]" ?x ?o]
  show "localStorage ?o = None" by blast
qed

subsection \<open>C10\<close>

text \<open>
  Claim C10. Logged out, \<open>logout\<close> and \<open>refresh\<close> return without an error and leave the
  whole world as it was: no request is sent, state and storage are unchanged, no timeout
  is cancelled and the router is not called.
\<close>

theorem logged_out_noop:
  "state_value w = None \<Longrightarrow> logout w = Some (None, w) \<and> refresh w = Some (None, w)"
  by (simp add: logout_def refresh.simps)

theorem logged_out_noop_witness:
  "logout (boot None (\<lambda>n. 0) [Rejected]) = Some (None, boot None (\<lambda>n. 0) [Rejected])
   \<and> refresh (boot None (\<lambda>n. 0) [Rejected]) = Some (None, boot None (\<lambda>n. 0) [Rejected])"
  using logged_out_noop [of "boot None (\<lambda>n. 0) [Rejected]"] by (simp add: boot_def)

end
